theory Spec2Isabelle
  imports Complex_Main
begin

section \<open>Python strings and dictionaries\<close>

text \<open>
  Strings are \<open>char list\<close>. Header names and values reach the client decoded as
  ISO-8859-1, so one \<open>char\<close> is one code point there; form fields and bodies are taken
  as UTF-8 byte strings, on which \<open>urlencode\<close> works byte by byte.
\<close>

definition py_isspace :: "char \<Rightarrow> bool" where
  \<comment> \<open>\<open>str.isspace\<close> on the code points below 256\<close>
  "py_isspace c = (of_char c \<in> {9, 10, 11, 12, 13, 28, 29, 30, 31, 32, 133, 160 :: nat})"

definition py_strip :: "string \<Rightarrow> string" where
  \<comment> \<open>\<open>s.strip()\<close>\<close>
  "py_strip s = rev (dropWhile py_isspace (rev (dropWhile py_isspace s)))"

definition py_lower_char :: "char \<Rightarrow> char" where
  "py_lower_char c =
     (let n = (of_char c :: nat)
      in if (65 \<le> n \<and> n \<le> 90) \<or> (192 \<le> n \<and> n \<le> 222 \<and> n \<noteq> 215)
         then char_of (n + 32) else c)"

definition py_lower :: "string \<Rightarrow> string" where
  \<comment> \<open>\<open>s.lower()\<close>\<close>
  "py_lower s = map py_lower_char s"

fun py_find :: "char \<Rightarrow> string \<Rightarrow> int" where
  \<comment> \<open>\<open>s.find(c)\<close>: the first index of \<open>c\<close>, or \<open>-1\<close>\<close>
  "py_find c [] = -1"
| "py_find c (x # xs) =
     (if x = c then 0 else (let r = py_find c xs in if r < 0 then -1 else r + 1))"

definition slice_to :: "string \<Rightarrow> int \<Rightarrow> string" where
  \<comment> \<open>\<open>s[:n]\<close>: a negative \<open>n\<close> counts from the end\<close>
  "slice_to s n = (if n < 0 then take (nat (int (length s) + n)) s else take (nat n) s)"

definition slice_from :: "string \<Rightarrow> int \<Rightarrow> string" where
  \<comment> \<open>\<open>s[n:]\<close>\<close>
  "slice_from s n = (if n < 0 then drop (nat (int (length s) + n)) s else drop (nat n) s)"

fun py_split :: "char \<Rightarrow> string \<Rightarrow> string list" where
  \<comment> \<open>\<open>s.split(c)\<close>: every occurrence separates, empty pieces are kept\<close>
  "py_split c [] = [[]]"
| "py_split c (x # xs) =
     (if x = c then [] # py_split c xs
      else (case py_split c xs of [] \<Rightarrow> [[x]] | y # ys \<Rightarrow> (x # y) # ys))"

fun starts_with :: "string \<Rightarrow> string \<Rightarrow> bool" where
  \<comment> \<open>\<open>s.startswith(p)\<close>, arguments as \<open>starts_with p s\<close>\<close>
  "starts_with [] s = True"
| "starts_with (p # ps) [] = False"
| "starts_with (p # ps) (x # xs) = (p = x \<and> starts_with ps xs)"

fun str_contains :: "string \<Rightarrow> string \<Rightarrow> bool" where
  \<comment> \<open>\<open>sub in s\<close> on strings: \<open>sub\<close> occurs as a substring\<close>
  "str_contains sub [] = (sub = [])"
| "str_contains sub (x # xs) = (starts_with sub (x # xs) \<or> str_contains sub xs)"

text \<open>
  A \<open>dict\<close> keeps its keys in insertion order: an association list without repeated
  keys. Storing under a key that is present replaces the value where it stands.
\<close>

type_synonym ('k, 'v) dict = "('k \<times> 'v) list"

definition dict_get :: "('k, 'v) dict \<Rightarrow> 'k \<Rightarrow> 'v option" where
  "dict_get d k = map_of d k"

definition dict_in :: "'k \<Rightarrow> ('k, 'v) dict \<Rightarrow> bool" where
  \<comment> \<open>\<open>k in d\<close>\<close>
  "dict_in k d = (map_of d k \<noteq> None)"

fun dict_set :: "'k \<Rightarrow> 'v \<Rightarrow> ('k, 'v) dict \<Rightarrow> ('k, 'v) dict" where
  \<comment> \<open>\<open>d[k] = v\<close>\<close>
  "dict_set k v [] = [(k, v)]"
| "dict_set k v ((k', v') # d) =
     (if k' = k then (k, v) # d else (k', v') # dict_set k v d)"

section \<open>The client\<close>

text \<open>A header value is one value or a list of values (a repeated header).\<close>

datatype hval = Single string | Multi "string list"

text \<open>
  A form field is a string, a list of strings, or \<open>None\<close> (which enters through a
  form that was scraped without a key).
\<close>

datatype field = Str string | Seq "string list" | PyNone

text \<open>The \<open>data\<close> argument of \<open>post\<close>: absent, a pre-encoded body, or a mapping.\<close>

datatype data = DNone | DStr string | DDict "(string, field) dict"

record auth =
  realm :: string
  uri :: string
  user :: string
  passwd :: string

text \<open>
  What \<open>opener.open\<close> is given: the URL, the encoded body, the headers appended to
  \<open>opener.addheaders\<close>, and the credentials of the basic-auth handler when one was
  installed.
\<close>

record request =
  req_url :: string
  req_data :: "string option"
  req_addheaders :: "(string \<times> string) list"
  req_auth :: "auth option"

text \<open>
  A response object, as \<open>urllib.request\<close> hands it out: \<open>getcode()\<close>, the header
  fields in order, and \<open>read()\<close>. Its \<open>headers\<close> are an \<open>http.client.HTTPMessage\<close>,
  which has \<open>get_param\<close> and no \<open>getparam\<close>.
\<close>

record response =
  code :: int
  resp_headers :: "(string \<times> string) list"
  body :: string

text \<open>
  \<open>opener.open\<close> returns a response, raises \<open>HTTPError\<close> (itself a response), or
  raises something else. The elapsed wall-clock time comes with the first two.
\<close>

datatype reply = Completed response real | HTTPErr response real | Failed

text \<open>
  The network answers the last request of the log of requests sent so far. The world
  is that log and the lines printed.
\<close>

type_synonym server = "request list \<Rightarrow> reply"

record world =
  sent :: "request list"
  stdout :: "string list"

definition opener_open :: "server \<Rightarrow> world \<Rightarrow> request \<Rightarrow> reply \<times> world" where
  "opener_open srv w rq = (srv (sent w @ [rq]), w\<lparr>sent := sent w @ [rq]\<rparr>)"

text \<open>\<open>bytes.decode(charset)\<close>: the codec is a parameter.\<close>

datatype decode_exc = LookupError | UnicodeDecodeError

type_synonym codec = "string \<Rightarrow> string \<Rightarrow> decode_exc + string"

datatype error =
    HTTPError response
  | RuntimeError string
  | URLError
  | DecodeError decode_exc
  | TypeError_unhashable
  | AttributeError
  \<comment> \<open>\<open>AttributeError\<close>: \<open>headers.getparam\<close> (line 175), or \<open>match\<close> on a string (line 194)\<close>

text \<open>\<open>self.text\<close> holds the bytes read, then the decoded text.\<close>

datatype body_text = Raw string | Decoded string

text \<open>
  \<open>self.session_regex = session_regex and re.compile(session_regex)\<close>: \<open>None\<close>, the
  empty string, or a compiled pattern, which is its \<open>match\<close> followed by
  \<open>group("name")\<close>; the pattern has that group, and it takes part in every match.
\<close>

datatype session_regex = SRNone | SREmpty | SRCompiled "string \<Rightarrow> string option"

record WebClient =
  app :: string
  postbacks :: bool
  forms :: "(string, string option) dict"
  history :: "(string \<times> string \<times> int option \<times> real) list"
  cookies :: "(string, string) dict"
  default_headers :: "(string, hval) dict"
  sessions :: "(string, string) dict"
  session_regex :: session_regex
  headers :: "(string, string) dict"
  url :: "string option"
  method_attr :: "string option"
  response :: "response option"
  time :: "real option"
  status :: "int option"
  text_attr :: "body_text option"

definition DEFAULT_HEADERS :: "(string, hval) dict" where
  "DEFAULT_HEADERS =
     [(''user-agent'', Single ''Mozilla/4.0''), (''accept-language'', Single ''en'')]"

definition SESSION_REGEX :: "string \<Rightarrow> string option" where
  \<comment> \<open>\<open>re.compile("session_id_(?P<name>.+)").match(s)\<close>, then \<open>group("name")\<close>\<close>
  "SESSION_REGEX s =
     (if starts_with ''session_id_'' s
      then (let name = takeWhile (\<lambda>c. c \<noteq> CHR 0x0A) (drop 11 s)
            in if name = [] then None else Some name)
      else None)"

definition init :: "string \<Rightarrow> bool \<Rightarrow> (string, hval) dict \<Rightarrow> session_regex \<Rightarrow> WebClient" where
  "init a p dh sr =
     \<lparr>app = a, postbacks = p, forms = [], history = [], cookies = [],
      default_headers = dh, sessions = [], session_regex = sr, headers = [],
      url = None, method_attr = None, response = None, time = None, status = None,
      text_attr = None\<rparr>"

subsection \<open>\<open>_parse_headers_in_cookies\<close>\<close>

definition parse_cookie_item :: "string \<Rightarrow> string \<times> string" where
  "parse_cookie_item item =
     (let cookie = slice_to item (py_find CHR '';'' item);
          pos = py_find CHR ''='' cookie;
          key = slice_to cookie pos;
          value = slice_from cookie (pos + 1)
      in (py_strip key, py_strip value))"

definition parse_set_cookie :: "string \<Rightarrow> (string, string) dict" where
  "parse_set_cookie h =
     foldl (\<lambda>d item. case parse_cookie_item item of (k, v) \<Rightarrow> dict_set k v d) []
       (py_split CHR '','' h)"

definition parse_headers_in_cookies :: "WebClient \<Rightarrow> WebClient" where
  "parse_headers_in_cookies c =
     c\<lparr>cookies :=
         (case dict_get (headers c) ''set-cookie'' of
            None \<Rightarrow> []
          | Some h \<Rightarrow> parse_set_cookie h)\<rparr>"

subsection \<open>\<open>urlencode(data, doseq=True)\<close>\<close>

definition hex_digit :: "nat \<Rightarrow> char" where
  "hex_digit n = ''0123456789ABCDEF'' ! (n mod 16)"

definition always_safe :: "char \<Rightarrow> bool" where
  "always_safe c =
     (let n = (of_char c :: nat)
      in (65 \<le> n \<and> n \<le> 90) \<or> (97 \<le> n \<and> n \<le> 122) \<or> (48 \<le> n \<and> n \<le> 57)
         \<or> c \<in> set ''_.-~'')"

definition quote_char :: "char \<Rightarrow> string" where
  "quote_char c =
     (if always_safe c then [c]
      else if c = CHR '' '' then ''+''
      else [CHR ''%'', hex_digit (of_char c div 16), hex_digit (of_char c)])"

definition quote_plus :: "string \<Rightarrow> string" where
  "quote_plus s = concat (map quote_char s)"

fun urlencode_field :: "string \<Rightarrow> field \<Rightarrow> string list" where
  "urlencode_field k (Str v) = [quote_plus k @ ''='' @ quote_plus v]"
| "urlencode_field k (Seq vs) = map (\<lambda>v. quote_plus k @ ''='' @ quote_plus v) vs"
| "urlencode_field k PyNone = [quote_plus k @ ''='' @ quote_plus ''None'']"

definition urlencode_items :: "(string, field) dict \<Rightarrow> string list" where
  "urlencode_items d = concat (map (\<lambda>(k, v). urlencode_field k v) d)"

fun join_amp :: "string list \<Rightarrow> string" where
  \<comment> \<open>\<open>"&".join(l)\<close>\<close>
  "join_amp [] = []"
| "join_amp [x] = x"
| "join_amp (x # y # ys) = x @ ''&'' @ join_amp (y # ys)"

definition urlencode :: "(string, field) dict \<Rightarrow> string" where
  "urlencode d = join_amp (urlencode_items d)"

subsection \<open>\<open>FORM_REGEX\<close>\<close>

definition PRE_KEY :: string where
  "PRE_KEY = ''<input name=\"_formkey\" type=\"hidden\" value=\"''"

definition PRE_NAME :: string where
  "PRE_NAME = ''<input name=\"_formname\" type=\"hidden\" value=\"''"

definition SUF :: string where
  "SUF = ''\" />''"

text \<open>
  \<open>.+?\<close> followed by the rest of the pattern \<open>k\<close>: the shortest non-empty run of
  characters other than newline after which \<open>k\<close> matches.
\<close>

fun lazy_plus :: "string \<Rightarrow> string \<Rightarrow> (string \<Rightarrow> string \<Rightarrow> 'a option) \<Rightarrow> 'a option" where
  "lazy_plus acc [] k = None"
| "lazy_plus acc (c # cs) k =
     (if c = CHR 0x0A then None
      else (case k (acc @ [c]) cs of
              Some r \<Rightarrow> Some r
            | None \<Rightarrow> lazy_plus (acc @ [c]) cs k))"

definition match_formname :: "string \<Rightarrow> (string \<times> string) option" where
  \<comment> \<open>the part after the optional group: the form name and the text left\<close>
  "match_formname s =
     (if starts_with PRE_NAME s
      then lazy_plus [] (drop (length PRE_NAME) s)
             (\<lambda>name rest. if starts_with SUF rest
                           then Some (name, drop (length SUF) rest) else None)
      else None)"

definition match_formkey :: "string \<Rightarrow> (string \<times> string \<times> string) option" where
  \<comment> \<open>the pattern with its optional group taken: key, name and the text left\<close>
  "match_formkey s =
     (if starts_with PRE_KEY s
      then lazy_plus [] (drop (length PRE_KEY) s)
             (\<lambda>key rest. if starts_with SUF rest
                          then (case match_formname (drop (length SUF) rest) of
                                  Some (name, rest') \<Rightarrow> Some (key, name, rest')
                                | None \<Rightarrow> None)
                          else None)
      else None)"

definition FORM_REGEX_match :: "string \<Rightarrow> (string option \<times> string \<times> string) option" where
  \<comment> \<open>a match at the start of \<open>s\<close>: \<open>group("formkey")\<close>, \<open>group("formname")\<close>, the text left\<close>
  "FORM_REGEX_match s =
     (case match_formkey s of
        Some (key, name, rest) \<Rightarrow> Some (Some key, name, rest)
      | None \<Rightarrow>
          (case match_formname s of
             Some (name, rest) \<Rightarrow> Some (None, name, rest)
           | None \<Rightarrow> None))"

lemma lazy_plus_shorter:
  "lazy_plus acc s k = Some r \<Longrightarrow>
   (\<forall>a rest x. k a rest = Some x \<longrightarrow> length (left x) \<le> length rest) \<Longrightarrow>
   length (left r) < length s"
proof (induction s arbitrary: acc)
  case Nil
  then show ?case by simp
next
  case (Cons c cs)
  show ?case
  proof (cases "k (acc @ [c]) cs")
    case None
    with Cons.prems(1) have "lazy_plus (acc @ [c]) cs k = Some r"
      by (simp split: if_splits)
    then have "length (left r) < length cs"
      using Cons.prems(2) by (rule Cons.IH)
    then show ?thesis by simp
  next
    case (Some x)
    with Cons.prems(1) have "x = r" by (simp split: if_splits)
    with Some Cons.prems(2) have "length (left r) \<le> length cs" by blast
    then show ?thesis by simp
  qed
qed

lemma match_formname_shorter:
  assumes "match_formname s = Some (name, rest)"
  shows "length rest < length s"
proof -
  let ?k = "\<lambda>name rest. if starts_with SUF rest
                           then Some (name, drop (length SUF) rest) else None"
  from assms have "lazy_plus [] (drop (length PRE_NAME) s) ?k = Some (name, rest)"
    by (simp add: match_formname_def split: if_splits)
  then have "length (snd (name, rest)) < length (drop (length PRE_NAME) s)"
    by (rule lazy_plus_shorter) (auto split: if_splits)
  then show ?thesis by simp
qed

lemma match_formkey_shorter:
  assumes "match_formkey s = Some (key, name, rest)"
  shows "length rest < length s"
proof -
  let ?k = "\<lambda>key rest. if starts_with SUF rest
                          then (case match_formname (drop (length SUF) rest) of
                                  Some (name, rest') \<Rightarrow> Some (key, name, rest')
                                | None \<Rightarrow> None)
                          else None"
  from assms have "lazy_plus [] (drop (length PRE_KEY) s) ?k = Some (key, name, rest)"
    by (simp add: match_formkey_def split: if_splits)
  then have "length (snd (snd (key, name, rest))) < length (drop (length PRE_KEY) s)"
  proof (rule lazy_plus_shorter, intro allI impI)
    fix a r x
    assume "?k a r = Some x"
    then obtain n r' where "match_formname (drop (length SUF) r) = Some (n, r')"
      and "x = (a, n, r')"
      by (auto split: if_splits option.splits)
    then show "length (snd (snd x)) \<le> length r"
      using match_formname_shorter [of "drop (length SUF) r" n r'] by simp
  qed
  then show ?thesis by simp
qed

lemma FORM_REGEX_match_shorter:
  "FORM_REGEX_match s = Some (key, name, rest) \<Longrightarrow> length rest < length s"
  unfolding FORM_REGEX_match_def
  by (auto split: option.splits dest: match_formname_shorter match_formkey_shorter)

function finditer :: "string \<Rightarrow> (string \<times> string option) list" where
  \<comment> \<open>\<open>FORM_REGEX.finditer(text)\<close>: \<open>(group("formname"), group("formkey"))\<close> of every
      match, left to right, without overlap\<close>
  "finditer s =
     (case FORM_REGEX_match s of
        Some (key, name, rest) \<Rightarrow> (name, key) # finditer rest
      | None \<Rightarrow> (case s of [] \<Rightarrow> [] | c # cs \<Rightarrow> finditer cs))"
  by pat_completeness auto
termination
  by (relation "measure length") (auto dest: FORM_REGEX_match_shorter)

declare finditer.simps [simp del]

definition find_forms :: "string \<Rightarrow> (string, string option) dict" where
  "find_forms t = foldl (\<lambda>d (name, key). dict_set name key d) [] (finditer t)"

subsection \<open>Outgoing headers\<close>

definition merge_default_headers ::
  "(string, hval) dict \<Rightarrow> (string, hval) dict \<Rightarrow> (string, hval) dict" where
  \<comment> \<open>\<open>for key, value in self.default_headers.items(): if not key in headers: headers[key] = value\<close>\<close>
  "merge_default_headers dh h =
     foldl (\<lambda>h (key, value). if \<not> dict_in key h then dict_set key value h else h) h dh"

fun header_entries :: "string \<Rightarrow> hval \<Rightarrow> (string \<times> string) list" where
  "header_entries key (Multi vs) = map (\<lambda>v. (key, v)) vs"
| "header_entries key (Single v) = [(key, v)]"

definition make_headers_list ::
  "(string, hval) dict \<Rightarrow> (string, string) dict \<Rightarrow> (string \<times> string) list" where
  "make_headers_list h ck =
     concat (map (\<lambda>(key, value). header_entries key value) h)
     @ map (\<lambda>(key, value). (''Cookie'', key @ ''='' @ value)) ck"

subsection \<open>Incoming headers\<close>

definition message_getitem :: "(string \<times> string) list \<Rightarrow> string \<Rightarrow> string option" where
  \<comment> \<open>\<open>self.response.headers[h]\<close>: the first field of that name, letter case ignored\<close>
  "message_getitem hs h = map_of (map (\<lambda>(n, v). (py_lower n, v)) hs) (py_lower h)"

definition normalize_headers :: "(string \<times> string) list \<Rightarrow> (string, string) dict" where
  \<comment> \<open>\<open>for h in self.response.headers: self.headers[h.lower()] = self.response.headers[h]\<close>;
      every \<open>h\<close> is a field of the message, so the lookup finds a value\<close>
  "normalize_headers hs =
     foldl (\<lambda>d (h, _). case message_getitem hs h of
                           Some v \<Rightarrow> dict_set (py_lower h) v d
                         | None \<Rightarrow> d) [] hs"

subsection \<open>Session check\<close>

definition session_message :: "string \<Rightarrow> string" where
  "session_message name = ''Changed session ID '' @ name"

definition session_step ::
  "(string \<Rightarrow> string option) \<Rightarrow> (string, string) dict \<times> string list \<Rightarrow> string \<times> string
     \<Rightarrow> (string, string) dict \<times> string list" where
  \<comment> \<open>one turn of the loop over \<open>self.cookies.items()\<close>: the sessions and the lines printed\<close>
  "session_step m st kv =
     (case st of (ss, out) \<Rightarrow> case kv of (cookie, value) \<Rightarrow>
        (case m cookie of
           None \<Rightarrow> (ss, out)
         | Some name \<Rightarrow>
             (dict_set name value ss,
              if dict_in name ss \<and> dict_get ss name \<noteq> Some value
              then out @ [session_message name] else out)))"

definition check_sessions ::
  "(string \<Rightarrow> string option) \<Rightarrow> (string, string) dict
     \<Rightarrow> (string, string) dict \<times> string list \<Rightarrow> (string, string) dict \<times> string list" where
  "check_sessions m ck st = foldl (session_step m) st ck"

subsection \<open>\<open>post\<close> and \<open>get\<close>\<close>

text \<open>
  What a call leaves behind for its caller: the exception raised, if any, and the
  caller's own \<open>data\<close> and \<open>headers\<close> objects, which the call may have changed.
\<close>

record outcome =
  result :: "error + unit"
  arg_data :: data
  arg_headers :: "(string, hval) dict option"

definition truthy :: "string option \<Rightarrow> bool" where
  \<comment> \<open>\<open>if charset:\<close>\<close>
  "truthy cs = (case cs of None \<Rightarrow> False | Some s \<Rightarrow> s \<noteq> [])"

definition auto_method :: "string \<Rightarrow> string \<Rightarrow> string" where
  \<comment> \<open>\<open>"POST" if method == "auto" else method\<close>\<close>
  "auto_method dflt method = (if method = ''auto'' then dflt else method)"

definition inject_form ::
  "(string, string option) dict \<Rightarrow> (string, field) dict \<Rightarrow> error + (string, field) dict" where
  \<comment> \<open>lines 139 to 150: the form name and key put into the caller's mapping; a list
      under \<open>_formname\<close> cannot be looked up in \<open>self.forms\<close>\<close>
  "inject_form fs d =
     (let d1 = (if \<not> dict_in ''_formname'' d \<and> length fs = 1
                then (case fs of (name, _) # _ \<Rightarrow> dict_set ''_formname'' (Str name) d | [] \<Rightarrow> d)
                else d)
      in if dict_in ''_formname'' d1 \<and> \<not> dict_in ''_formkey'' d1
         then (case dict_get d1 ''_formname'' of
                 Some (Seq _) \<Rightarrow> Inl TypeError_unhashable
               | Some (Str name) \<Rightarrow>
                   (case dict_get fs name of
                      Some key \<Rightarrow>
                        Inr (dict_set ''_formkey''
                               (case key of Some k \<Rightarrow> Str k | None \<Rightarrow> PyNone) d1)
                    | None \<Rightarrow> Inr d1)
               | _ \<Rightarrow> Inr d1)
         else Inr d1)"

definition encode_data ::
  "(string, string option) dict \<Rightarrow> string \<Rightarrow> data \<Rightarrow> string \<times> data \<times> (error + string option)" where
  \<comment> \<open>lines 134 to 158: \<open>self.method\<close>, the caller's \<open>data\<close> afterwards, and the encoded body\<close>
  "encode_data fs method data =
     (case data of
        DStr s \<Rightarrow> (auto_method ''POST'' method, data, Inr (Some s))
      | DDict d \<Rightarrow>
          (case inject_form fs d of
             Inl e \<Rightarrow> (auto_method ''POST'' method, data, Inl e)
           | Inr d' \<Rightarrow> (auto_method ''POST'' method, DDict d', Inr (Some (urlencode d'))))
      | DNone \<Rightarrow> (auto_method ''GET'' method, data, Inr None))"

definition decode_body :: "codec \<Rightarrow> string option \<Rightarrow> response \<Rightarrow> error + body_text" where
  \<comment> \<open>lines 172 to 176: \<open>self.text\<close> afterwards. For \<open>"auto"\<close> the lookup
      \<open>self.response.headers.getparam\<close> raises, so the local \<open>charset\<close> is never
      rebound on a path that goes on\<close>
  "decode_body cdc charset resp =
     (case charset of
        None \<Rightarrow> Inr (Raw (body resp))
      | Some n \<Rightarrow>
          if n = [] then Inr (Raw (body resp))
          else if n = ''auto'' then Inl AttributeError
          else (case cdc n (body resp) of
                  Inl e \<Rightarrow> Inl (DecodeError e)
                | Inr t \<Rightarrow> Inr (Decoded t)))"

definition session_check ::
  "session_regex \<Rightarrow> (string, string) dict \<Rightarrow> (string, string) dict \<times> string list
     \<Rightarrow> error + (string, string) dict \<times> string list" where
  \<comment> \<open>lines 192 to 199; the empty string is not \<open>None\<close> and has no \<open>match\<close>\<close>
  "session_check sr ck st =
     (case sr of
        SRNone \<Rightarrow> Inr st
      | SREmpty \<Rightarrow> (if ck = [] then Inr st else Inl AttributeError)
      | SRCompiled m \<Rightarrow> Inr (check_sessions m ck st))"

definition scrape_forms :: "string option \<Rightarrow> body_text \<Rightarrow> WebClient \<Rightarrow> WebClient" where
  \<comment> \<open>lines 202 to 205; \<open>charset\<close> is truthy only after \<open>self.text\<close> was decoded\<close>
  "scrape_forms charset txt c =
     (if truthy charset
      then (case txt of Decoded t \<Rightarrow> c\<lparr>forms := find_forms t\<rparr> | Raw _ \<Rightarrow> c)
      else c)"

definition receive ::
  "codec \<Rightarrow> string \<Rightarrow> string \<Rightarrow> string option \<Rightarrow> bool \<Rightarrow> response \<Rightarrow> real
     \<Rightarrow> WebClient \<times> world \<Rightarrow> (error + unit) \<times> WebClient \<times> world" where
  \<comment> \<open>lines 160 to 208, once \<open>opener.open\<close> has answered: \<open>m\<close> and \<open>u\<close> are
      \<open>self.method\<close> and \<open>self.url\<close>, \<open>is_error\<close> says an \<open>HTTPError\<close> was caught\<close>
  "receive cdc m u charset is_error resp t cw =
     (case cw of (c, w) \<Rightarrow>
        (let c1 = c\<lparr>response := Some resp, time := Some t, status := Some (code resp),
                     text_attr := Some (Raw (body resp))\<rparr>
         in case decode_body cdc charset resp of
              Inl e \<Rightarrow> (Inl e, c1, w)
            | Inr txt \<Rightarrow>
                (let c2 = c1\<lparr>text_attr := Some txt,
                              headers := normalize_headers (resp_headers resp)\<rparr>
                 in if is_error
                    then (case dict_get (headers c2) ''web2py_error'' of
                            Some v \<Rightarrow> (Inl (RuntimeError v), c2, w)
                          | None \<Rightarrow> (Inl (HTTPError resp), c2, w))
                    else (let c3 = parse_headers_in_cookies c2
                          in case session_check (session_regex c3) (cookies c3)
                                    (sessions c3, stdout w) of
                               Inl e \<Rightarrow> (Inl e, c3, w)
                             | Inr (ss, out) \<Rightarrow>
                                 (let c4 = scrape_forms charset txt (c3\<lparr>sessions := ss\<rparr>)
                                  in (Inr (),
                                      c4\<lparr>history := history c4 @ [(m, u, Some (code resp), t)]\<rparr>,
                                      w\<lparr>stdout := out\<rparr>))))))"

definition used_headers :: "WebClient \<Rightarrow> (string, hval) dict option \<Rightarrow> (string, hval) dict" where
  \<comment> \<open>lines 97 and 113 to 115: \<open>headers or {}\<close> with the defaults merged in\<close>
  "used_headers c headers' =
     merge_default_headers (default_headers c)
       (case headers' of None \<Rightarrow> [] | Some h \<Rightarrow> h)"

definition headers_after ::
  "WebClient \<Rightarrow> (string, hval) dict option \<Rightarrow> (string, hval) dict option" where
  \<comment> \<open>the caller's \<open>headers\<close> object after line 115: \<open>headers or {}\<close> is a new dict when
      the caller's is empty, and the caller's own dict otherwise\<close>
  "headers_after c headers' =
     (case headers' of
        None \<Rightarrow> None
      | Some h \<Rightarrow> if h = [] then Some [] else Some (used_headers c headers'))"

definition make_request ::
  "WebClient \<Rightarrow> string \<Rightarrow> string option \<Rightarrow> (string, string) dict option
     \<Rightarrow> (string, hval) dict option \<Rightarrow> auth option \<Rightarrow> request" where
  \<comment> \<open>lines 93 to 129 and the arguments of \<open>opener.open\<close>; \<open>cookies or {}\<close> and
      \<open>if auth\<close> take an empty dict as absent\<close>
  "make_request c u encoded cookies' headers' auth =
     \<lparr>req_url = u, req_data = encoded,
      req_addheaders =
        make_headers_list (used_headers c headers')
          (case cookies' of None \<Rightarrow> cookies c | Some x \<Rightarrow> x),
      req_auth = auth\<rparr>"

definition post_request ::
  "server \<Rightarrow> codec \<Rightarrow> string \<Rightarrow> WebClient \<times> world \<Rightarrow> data \<Rightarrow> (string, string) dict option
     \<Rightarrow> (string, hval) dict option \<Rightarrow> auth option \<Rightarrow> string \<Rightarrow> string option
     \<Rightarrow> outcome \<times> WebClient \<times> world" where
  \<comment> \<open>lines 93 to 208 of \<open>post\<close>, what follows the priming request; \<open>u\<close> is \<open>self.url\<close>\<close>
  "post_request srv cdc u cw data cookies' headers' auth method charset =
     (case cw of (c, w) \<Rightarrow>
        (case encode_data (forms c) method data of
           (m, data_after, enc) \<Rightarrow>
             (let c1 = c\<lparr>method_attr := Some m\<rparr>;
                  leave = (\<lambda>(r, c', w').
                    (\<lparr>result = r, arg_data = data_after,
                      arg_headers = headers_after c headers'\<rparr>, c', w'))
              in case enc of
                   Inl e \<Rightarrow> leave (Inl e, c1, w)
                 | Inr encoded \<Rightarrow>
                     (case opener_open srv w
                             (make_request c u encoded cookies' headers' auth) of
                        (Failed, w') \<Rightarrow> leave (Inl URLError, c1, w')
                      | (Completed resp t, w') \<Rightarrow>
                          leave (receive cdc m u charset False resp t (c1, w'))
                      | (HTTPErr resp t, w') \<Rightarrow>
                          leave (receive cdc m u charset True resp t (c1, w'))))))"

definition has_formname :: "data \<Rightarrow> bool" where
  \<comment> \<open>\<open>data and "_formname" in data\<close>: on a string, \<open>in\<close> looks for a substring\<close>
  "has_formname data =
     (case data of
        DNone \<Rightarrow> False
      | DStr s \<Rightarrow> s \<noteq> [] \<and> str_contains ''_formname'' s
      | DDict d \<Rightarrow> d \<noteq> [] \<and> dict_in ''_formname'' d)"

definition needs_postback :: "WebClient \<Rightarrow> string \<Rightarrow> data \<Rightarrow> bool" where
  \<comment> \<open>lines 82 to 88\<close>
  "needs_postback c u data =
     (has_formname data \<and> postbacks c \<and> history c \<noteq> []
      \<and> fst (snd (last (history c))) \<noteq> u)"

text \<open>
  \<open>post\<close> is its lines 79 to 91 (\<open>before_request\<close>: \<open>self.url\<close> and the priming
  \<open>get\<close>, which is handed the caller's \<open>headers\<close> object) followed by its lines 93
  to 208 (\<open>post_request\<close>). \<open>get\<close> does not pass \<open>auth\<close> on.
\<close>

function post ::
  "server \<Rightarrow> codec \<Rightarrow> WebClient \<times> world \<Rightarrow> string \<Rightarrow> data \<Rightarrow> (string, string) dict option
     \<Rightarrow> (string, hval) dict option \<Rightarrow> auth option \<Rightarrow> string \<Rightarrow> string option
     \<Rightarrow> outcome \<times> WebClient \<times> world"
  and get ::
  "server \<Rightarrow> codec \<Rightarrow> WebClient \<times> world \<Rightarrow> string \<Rightarrow> (string, string) dict option
     \<Rightarrow> (string, hval) dict option \<Rightarrow> auth option
     \<Rightarrow> outcome \<times> WebClient \<times> world"
  and before_request ::
  "server \<Rightarrow> codec \<Rightarrow> WebClient \<times> world \<Rightarrow> string \<Rightarrow> data \<Rightarrow> (string, string) dict option
     \<Rightarrow> (string, hval) dict option \<Rightarrow> auth option
     \<Rightarrow> (error + unit) \<times> WebClient \<times> world \<times> (string, hval) dict option"
  where
  "post srv cdc cw url' data cookies' headers' auth method charset =
     (case before_request srv cdc cw url' data cookies' headers' auth of
        (Inl e, c1, w1, h1) \<Rightarrow>
          (\<lparr>result = Inl e, arg_data = data, arg_headers = h1\<rparr>, c1, w1)
      | (Inr _, c1, w1, h1) \<Rightarrow>
          post_request srv cdc (app (fst cw) @ url') (c1, w1) data cookies' h1
            auth method charset)"
| "get srv cdc cw url' cookies' headers' auth =
     post srv cdc cw url' DNone cookies' headers' None ''GET'' (Some ''utf-8'')"
| "before_request srv cdc cw url' data cookies' headers' auth =
     (case cw of (c, w) \<Rightarrow>
        (let u = app c @ url';
             c0 = c\<lparr>url := Some u\<rparr>
         in if needs_postback c0 u data
            then (case get srv cdc (c0, w) url' cookies' headers' auth of
                    (r, c1, w1) \<Rightarrow> (result r, c1, w1, arg_headers r))
            else (Inr (), c0, w, headers')))"
  by pat_completeness auto
termination
  by (relation "measure (\<lambda>x. case x of
          Inl (srv, cdc, cw, u, data, rest) \<Rightarrow> (if data = DNone then 1 else 4)
        | Inr (Inl _) \<Rightarrow> 2
        | Inr (Inr (srv, cdc, cw, u, data, rest)) \<Rightarrow> (if data = DNone then 0 else 3))")
     (auto simp: needs_postback_def has_formname_def)

declare post.simps [simp del] get.simps [simp del] before_request.simps [simp del]

section \<open>The cookie rule as documented\<close>

text \<open>
  The rule in the words of the specification: split the header on commas, keep of each
  item the part before the first \<open>;\<close>, split that at the first \<open>=\<close> into name and
  value, and trim both.
\<close>

definition documented_cookie_item :: "string \<Rightarrow> string \<times> string" where
  "documented_cookie_item item =
     (let cookie = takeWhile (\<lambda>c. c \<noteq> CHR '';'') item
      in (py_strip (takeWhile (\<lambda>c. c \<noteq> CHR ''='') cookie),
          py_strip (drop 1 (dropWhile (\<lambda>c. c \<noteq> CHR ''='') cookie))))"

definition documented_set_cookie :: "string \<Rightarrow> (string, string) dict" where
  "documented_set_cookie h =
     foldl (\<lambda>d item. case documented_cookie_item item of (k, v) \<Rightarrow> dict_set k v d) []
       (py_split CHR '','' h)"

section \<open>Reading a URL-encoded body\<close>

text \<open>
  What the receiving side makes of a body, as
  \<open>urllib.parse.parse_qsl(body, keep_blank_values=True)\<close> does on byte strings: the
  pieces between \<open>&\<close>, each split at its first \<open>=\<close>, with \<open>+\<close> read as a space and
  \<open>%XX\<close> as the byte it names.
\<close>

definition hex_val :: "char \<Rightarrow> nat option" where
  "hex_val c =
     (let n = (of_char c :: nat)
      in if 48 \<le> n \<and> n \<le> 57 then Some (n - 48)
         else if 65 \<le> n \<and> n \<le> 70 then Some (n - 55)
         else if 97 \<le> n \<and> n \<le> 102 then Some (n - 87)
         else None)"

fun unquote_plus :: "string \<Rightarrow> string" where
  "unquote_plus [] = []"
| "unquote_plus (c # cs) =
     (if c = CHR ''+'' then CHR '' '' # unquote_plus cs
      else if c = CHR ''%''
      then (case cs of
              a # b # rest \<Rightarrow>
                (case (hex_val a, hex_val b) of
                   (Some x, Some y) \<Rightarrow> char_of (16 * x + y) # unquote_plus rest
                 | _ \<Rightarrow> c # unquote_plus cs)
            | _ \<Rightarrow> c # unquote_plus cs)
      else c # unquote_plus cs)"

definition parse_qsl :: "string \<Rightarrow> (string \<times> string) list" where
  "parse_qsl qs =
     map (\<lambda>nv. (unquote_plus (takeWhile (\<lambda>c. c \<noteq> CHR ''='') nv),
                unquote_plus (drop 1 (dropWhile (\<lambda>c. c \<noteq> CHR ''='') nv))))
       (filter (\<lambda>nv. nv \<noteq> []) (py_split CHR ''&'' qs))"

section \<open>A sample session\<close>

text \<open>
  A codec that knows UTF-8 only and refuses the byte \<open>0xFF\<close>; a server that answers
  \<open>ticket\<close> with an error report, \<open>plain\<close> with a page without forms, \<open>rotate\<close>
  with a new session cookie, and every other path with a page holding one form; and a
  client that has fetched \<open>page\<close>.
\<close>

definition ex_codec :: codec where
  "ex_codec n b =
     (if n = ''utf-8''
      then (if CHR 0xFF \<in> set b then Inl UnicodeDecodeError else Inr b)
      else Inl LookupError)"

definition ex_page :: response where
  "ex_page =
     \<lparr>code = 200,
      resp_headers = [(''Set-Cookie'', ''session_id_app=abc; Path=/''),
                      (''Content-Type'', ''text/html'')],
      body = ''<input name=\"_formkey\" type=\"hidden\" value=\"K1\" /><input name=\"_formname\" type=\"hidden\" value=\"register\" />''\<rparr>"

definition ex_ticket :: response where
  "ex_ticket =
     \<lparr>code = 500,
      resp_headers = [(''Web2py_Error'', ''ticket 42'')],
      body = [CHR 0xFF]\<rparr>"

definition ex_plain :: response where
  "ex_plain =
     \<lparr>code = 200,
      resp_headers = [(''Content-Type'', ''text/plain'')],
      body = ''hello''\<rparr>"

definition ex_rotated :: response where
  "ex_rotated =
     \<lparr>code = 200,
      resp_headers = [(''Set-Cookie'', ''session_id_app=xyz; Path=/'')],
      body = []\<rparr>"

definition ex_server :: server where
  "ex_server lg =
     (if lg = [] then Failed
      else if req_url (last lg) = ''http://host/app/ticket'' then HTTPErr ex_ticket 1
      else if req_url (last lg) = ''http://host/app/plain'' then Completed ex_plain 1
      else if req_url (last lg) = ''http://host/app/rotate'' then Completed ex_rotated 1
      else Completed ex_page 1)"

definition ex_client :: WebClient where
  "ex_client = init ''http://host/app/'' True DEFAULT_HEADERS (SRCompiled SESSION_REGEX)"

definition ex_world :: world where
  "ex_world = \<lparr>sent = [], stdout = []\<rparr>"

definition ex_visited :: "WebClient \<times> world" where
  "ex_visited = snd (get ex_server ex_codec (ex_client, ex_world) ''page'' None None None)"

definition ex_fields :: "(string, field) dict" where
  "ex_fields = [(''_formname'', Str ''register''), (''email'', Str ''a@b.com'')]"

definition ex_form :: data where
  "ex_form = DDict ex_fields"

definition ex_stale :: "outcome \<times> WebClient \<times> world" where
  "ex_stale =
     post ex_server ex_codec ex_visited ''plain'' (DDict ex_fields) None None None
       ''auto'' (Some ''utf-8'')"

definition ex_priming :: "outcome \<times> WebClient \<times> world" where
  "ex_priming =
     get ex_server ex_codec
       ((fst ex_visited)\<lparr>url := Some (app (fst ex_visited) @ ''submit'')\<rparr>, snd ex_visited)
       ''submit'' None None None"

definition ex_submit :: "outcome \<times> WebClient \<times> world" where
  "ex_submit =
     post ex_server ex_codec ex_visited ''submit'' (DDict ex_fields) None None None
       ''auto'' (Some ''utf-8'')"

definition ex_auth :: auth where
  "ex_auth = \<lparr>realm = ''app'', uri = ''http://host/'', user = ''homer'', passwd = ''test''\<rparr>"



definition ex_auto :: "outcome \<times> WebClient \<times> world" where
  "ex_auto =
     post ex_server ex_codec ex_visited ''page'' DNone None None None ''auto'' (Some ''auto'')"

definition ex_raw :: "outcome \<times> WebClient \<times> world" where
  "ex_raw = post ex_server ex_codec ex_visited ''page'' DNone None None None ''auto'' None"

definition ex_again :: "outcome \<times> WebClient \<times> world" where
  "ex_again =
     post ex_server ex_codec ex_visited ''page'' DNone None None None ''auto'' (Some ''utf-8'')"

definition ex_bare :: "outcome \<times> WebClient \<times> world" where
  "ex_bare =
     post ex_server ex_codec (ex_client, ex_world) ''page'' DNone None (Some []) None
       ''auto'' (Some ''utf-8'')"

definition ex_tagged :: "outcome \<times> WebClient \<times> world" where
  "ex_tagged =
     post ex_server ex_codec ex_visited ''page'' (DDict ex_fields) None
       (Some [(''x-test'', Single ''1'')]) None ''auto'' (Some ''utf-8'')"


definition ex_rotation :: "outcome \<times> WebClient \<times> world" where
  "ex_rotation =
     post ex_server ex_codec ex_visited ''rotate'' DNone None None None ''auto'' (Some ''utf-8'')"

section \<open>How a call unfolds\<close>

lemma needs_postback_url [simp]: "needs_postback (c\<lparr>url := x\<rparr>) u data = needs_postback c u data"
  by (simp add: needs_postback_def)

lemma needs_postback_DNone [simp]: "\<not> needs_postback c u DNone"
  by (simp add: needs_postback_def has_formname_def)

lemma before_request_DNone:
  "before_request srv cdc (c, w) url' DNone ck hs au =
     (Inr (), c\<lparr>url := Some (app c @ url')\<rparr>, w, hs)"
  by (simp add: before_request.simps Let_def)

lemma get_eq:
  "get srv cdc (c, w) url' ck hs au =
     post_request srv cdc (app c @ url') (c\<lparr>url := Some (app c @ url')\<rparr>, w) DNone ck hs None
       ''GET'' (Some ''utf-8'')"
  by (simp add: get.simps post.simps before_request_DNone)

lemma before_request_eq:
  "before_request srv cdc (c, w) url' data ck hs au =
     (if needs_postback c (app c @ url') data
      then (case post_request srv cdc (app c @ url') (c\<lparr>url := Some (app c @ url')\<rparr>, w)
                   DNone ck hs None ''GET'' (Some ''utf-8'') of
              (r, c1, w1) \<Rightarrow> (result r, c1, w1, arg_headers r))
      else (Inr (), c\<lparr>url := Some (app c @ url')\<rparr>, w, hs))"
  by (simp add: before_request.simps Let_def get_eq)

lemma post_eq:
  "post srv cdc (c, w) url' data ck hs au m cs =
     (case before_request srv cdc (c, w) url' data ck hs au of
        (Inl e, c1, w1, h1) \<Rightarrow> (\<lparr>result = Inl e, arg_data = data, arg_headers = h1\<rparr>, c1, w1)
      | (Inr _, c1, w1, h1) \<Rightarrow>
          post_request srv cdc (app c @ url') (c1, w1) data ck h1 au m cs)"
  by (simp add: post.simps split: prod.splits sum.splits)

lemma receive_sent:
  "receive cdc m u cs is_err resp t (c, w) = (r, c', w') \<Longrightarrow> sent w' = sent w"
  by (auto simp: receive_def Let_def split: sum.splits option.splits if_splits prod.splits)

lemma scrape_forms_history [simp]: "history (scrape_forms cs txt c) = history c"
  by (simp add: scrape_forms_def split: body_text.splits)

lemma parse_headers_in_cookies_history [simp]: "history (parse_headers_in_cookies c) = history c"
  by (simp add: parse_headers_in_cookies_def)

lemma receive_history:
  "receive cdc m u cs is_err resp t (c, w) = (r, c', w') \<Longrightarrow>
   history c' = (case r of Inl _ \<Rightarrow> history c | Inr _ \<Rightarrow> history c @ [(m, u, Some (code resp), t)])"
  by (auto simp: receive_def Let_def split: sum.splits option.splits if_splits prod.splits)

lemma receive_error_raises:
  "receive cdc m u cs True resp t (c, w) = (r, c', w') \<Longrightarrow> \<exists>e. r = Inl e"
  by (auto simp: receive_def Let_def split: sum.splits option.splits if_splits prod.splits)

lemma encode_data_DNone [simp]: "encode_data fs m DNone = (auto_method ''GET'' m, DNone, Inr None)"
  by (simp add: encode_data_def)

lemma post_request_elim:
  assumes "post_request srv cdc u (c, w) data ck hs au m cs = (r, c', w')"
  obtains
    (raised) mm d' e where
      "encode_data (forms c) m data = (mm, d', Inl e)"
      "r = \<lparr>result = Inl e, arg_data = d', arg_headers = headers_after c hs\<rparr>"
      "c' = c\<lparr>method_attr := Some mm\<rparr>" "w' = w"
  | (failed) mm d' bdy where
      "encode_data (forms c) m data = (mm, d', Inr bdy)"
      "srv (sent w @ [make_request c u bdy ck hs au]) = Failed"
      "r = \<lparr>result = Inl URLError, arg_data = d', arg_headers = headers_after c hs\<rparr>"
      "c' = c\<lparr>method_attr := Some mm\<rparr>"
      "w' = w\<lparr>sent := sent w @ [make_request c u bdy ck hs au]\<rparr>"
  | (answered) mm d' bdy resp t is_err res where
      "encode_data (forms c) m data = (mm, d', Inr bdy)"
      "srv (sent w @ [make_request c u bdy ck hs au]) =
         (if is_err then HTTPErr resp t else Completed resp t)"
      "receive cdc mm u cs is_err resp t
         (c\<lparr>method_attr := Some mm\<rparr>, w\<lparr>sent := sent w @ [make_request c u bdy ck hs au]\<rparr>)
       = (res, c', w')"
      "r = \<lparr>result = res, arg_data = d', arg_headers = headers_after c hs\<rparr>"
proof -
  obtain mm d' enc where e: "encode_data (forms c) m data = (mm, d', enc)"
    by (cases "encode_data (forms c) m data") auto
  show thesis
  proof (cases enc)
    case (Inl x)
    with assms e show thesis
      by (intro raised [of mm d' x]) (auto simp: post_request_def)
  next
    case (Inr bdy)
    show thesis
    proof (cases "srv (sent w @ [make_request c u bdy ck hs au])")
      case Failed
      with assms e Inr show thesis
        by (intro failed [of mm d' bdy]) (auto simp: post_request_def opener_open_def)
    next
      case (Completed resp t)
      with assms e Inr show thesis
        by (intro answered [of mm d' bdy False resp t "result r"])
           (auto simp: post_request_def opener_open_def split: prod.splits)
    next
      case (HTTPErr resp t)
      with assms e Inr show thesis
        by (intro answered [of mm d' bdy True resp t "result r"])
           (auto simp: post_request_def opener_open_def split: prod.splits)
    qed
  qed
qed

lemma make_request_sel [simp]:
  "req_url (make_request c u bdy ck hs au) = u"
  "req_data (make_request c u bdy ck hs au) = bdy"
  "req_auth (make_request c u bdy ck hs au) = au"
  by (simp_all add: make_request_def)

lemma post_request_completed:
  assumes "post_request srv cdc u (c, w) data ck hs au m cs = (r, c', w')"
    and "result r = Inr ()"
  shows "\<exists>rq resp t. sent w' = sent w @ [rq] \<and> req_url rq = u \<and> req_auth rq = au
            \<and> Inr (req_data rq) = snd (snd (encode_data (forms c) m data))
            \<and> srv (sent w') = Completed resp t
            \<and> history c' = history c @ [(fst (encode_data (forms c) m data), u, Some (code resp), t)]"
  using assms(1)
proof (cases rule: post_request_elim)
  case (raised mm d' e)
  with assms(2) show ?thesis by simp
next
  case (failed mm d' bdy)
  with assms(2) show ?thesis by simp
next
  case (answered mm d' bdy resp t is_err res)
  with assms(2) have res: "res = Inr ()" by simp
  with answered(3) have "\<not> is_err"
    by (cases is_err) (auto dest: receive_error_raises)
  with answered res receive_sent [OF answered(3)] receive_history [OF answered(3)]
  show ?thesis by (intro exI [of _ "make_request c u bdy ck hs au"] exI [of _ resp] exI [of _ t]) simp
qed


lemma encode_data_fst: "fst (encode_data fs m data) = auto_method (if data = DNone then ''GET'' else ''POST'') m"
  by (simp add: encode_data_def split: data.splits sum.splits)

lemma dict_in_Nil [simp]: "\<not> dict_in k []"
  by (simp add: dict_in_def)

lemma map_of_dict_set: "map_of (dict_set k v d) = (map_of d)(k \<mapsto> v)"
  by (induction d) (auto simp: fun_eq_iff)

lemma dict_get_dict_set: "dict_get (dict_set k v d) k' = (if k' = k then Some v else dict_get d k')"
  by (simp add: dict_get_def map_of_dict_set)

lemma dict_in_dict_set: "dict_in k' (dict_set k v d) = (k' = k \<or> dict_in k' d)"
  by (simp add: dict_in_def map_of_dict_set)

section \<open>Request history and the priming request\<close>

text \<open>
  C1, as stated, fails: a pre-encoded string body that contains the text
  \<open>_formname\<close> also triggers the priming \<open>GET\<close>, because \<open>"_formname" in data\<close> is a
  substring test on a string. The client that has fetched \<open>page\<close> posts the string
  \<open>_formname=x\<close> to \<open>submit\<close>: two requests go out, the first without a body, and the
  history grows by two entries.
\<close>

theorem priming_on_string_data:
  "length (sent (snd ex_visited)) = 1
   \<and> map fst (history (fst ex_visited)) = [''GET'']
   \<and> map req_data (sent (snd (snd
         (post ex_server ex_codec ex_visited ''submit'' (DStr ''_formname=x'')
            None None None ''auto'' (Some ''utf-8'')))))
       = [None, None, Some ''_formname=x'']
   \<and> map fst (history (fst (snd
         (post ex_server ex_codec ex_visited ''submit'' (DStr ''_formname=x'')
            None None None ''auto'' (Some ''utf-8'')))))
       = [''GET'', ''GET'', ''POST'']"
  by code_simp

text \<open>
  C1, amended: the priming \<open>GET\<close> is issued exactly when \<open>data\<close> is a mapping with a
  \<open>_formname\<close> key or a string containing \<open>_formname\<close>, postbacks are enabled, the
  history is non-empty and its last URL differs from \<open>app + url\<close>. A call that
  completes then sends two requests to that URL, the first without a body, and
  appends two history entries, the first a \<open>GET\<close>; otherwise it sends one request
  and appends one entry.
\<close>

theorem post_history:
  assumes run: "post srv cdc (c, w) url' data ck hs au m cs = (r, c', w')"
    and ok: "result r = Inr ()"
  shows "(if (case data of
                DDict d \<Rightarrow> dict_in ''_formname'' d
              | DStr s \<Rightarrow> str_contains ''_formname'' s
              | DNone \<Rightarrow> False)
             \<and> postbacks c \<and> history c \<noteq> []
             \<and> fst (snd (last (history c))) \<noteq> app c @ url'
          then \<exists>q1 q2 s1 t1 s2 t2.
                 sent w' = sent w @ [q1, q2]
                 \<and> req_url q1 = app c @ url' \<and> req_data q1 = None
                 \<and> req_url q2 = app c @ url'
                 \<and> history c' = history c @
                      [(''GET'', app c @ url', s1, t1),
                       (auto_method ''POST'' m, app c @ url', s2, t2)]
          else \<exists>q s t.
                 sent w' = sent w @ [q] \<and> req_url q = app c @ url'
                 \<and> history c' = history c @
                      [(auto_method (if data = DNone then ''GET'' else ''POST'') m,
                        app c @ url', s, t)])"
proof -
  let ?u = "app c @ url'"
  have cond: "needs_postback c ?u data =
      ((case data of
          DDict d \<Rightarrow> dict_in ''_formname'' d
        | DStr s \<Rightarrow> str_contains ''_formname'' s
        | DNone \<Rightarrow> False)
       \<and> postbacks c \<and> history c \<noteq> [] \<and> fst (snd (last (history c))) \<noteq> ?u)"
    by (auto simp: needs_postback_def has_formname_def split: data.splits)
  show ?thesis
  proof (cases "needs_postback c ?u data")
    case True
    obtain r1 c1 w1 where g: "post_request srv cdc ?u (c\<lparr>url := Some ?u\<rparr>, w)
                     DNone ck hs None ''GET'' (Some ''utf-8'') = (r1, c1, w1)"
      by (metis prod_cases3)
    from run ok True g have r1: "result r1 = Inr ()"
      by (auto simp: post_eq before_request_eq split: sum.splits)
    with run True g
    have main: "post_request srv cdc ?u (c1, w1) data ck (arg_headers r1) au m cs = (r, c', w')"
      by (auto simp: post_eq before_request_eq split: sum.splits)
    from post_request_completed [OF g r1] obtain q1 s1 t1 where
      1: "sent w1 = sent w @ [q1]" "req_url q1 = ?u" "req_data q1 = None"
         "history c1 = history c @ [(''GET'', ?u, s1, t1)]"
      by (auto simp: auto_method_def)
    from post_request_completed [OF main ok] obtain q2 s2 t2 where
      2: "sent w' = sent w1 @ [q2]" "req_url q2 = ?u"
         "history c' = history c1 @ [(fst (encode_data (forms c1) m data), ?u, s2, t2)]"
      by auto
    from True have "data \<noteq> DNone" by auto
    with 1 2 True show ?thesis
      unfolding cond [symmetric] encode_data_fst by simp
  next
    case False
    from run False
    have main: "post_request srv cdc ?u (c\<lparr>url := Some ?u\<rparr>, w) data ck hs au m cs = (r, c', w')"
      by (auto simp: post_eq before_request_eq)
    from post_request_completed [OF main ok] False show ?thesis
      unfolding cond [symmetric] encode_data_fst by auto
  qed
qed

theorem post_history_witness:
  "result (fst (post ex_server ex_codec ex_visited ''submit'' ex_form
                  None None None ''auto'' (Some ''utf-8''))) = Inr ()
   \<and> (\<exists>q1 q2 s1 t1 s2 t2.
        sent (snd (snd (post ex_server ex_codec ex_visited ''submit'' ex_form
                          None None None ''auto'' (Some ''utf-8''))))
          = sent (snd ex_visited) @ [q1, q2]
        \<and> req_data q1 = None
        \<and> history (fst (snd (post ex_server ex_codec ex_visited ''submit'' ex_form
                                None None None ''auto'' (Some ''utf-8''))))
          = history (fst ex_visited) @
              [(''GET'', ''http://host/app/submit'', s1, t1),
               (''POST'', ''http://host/app/submit'', s2, t2)])"
proof -
  let ?P = "post ex_server ex_codec ex_visited ''submit'' ex_form
              None None None ''auto'' (Some ''utf-8'')"
  have run: "post ex_server ex_codec (fst ex_visited, snd ex_visited) ''submit'' ex_form
               None None None ''auto'' (Some ''utf-8'') = (fst ?P, fst (snd ?P), snd (snd ?P))"
    by simp
  have ok: "result (fst ?P) = Inr ()"
    by code_simp
  have cond: "(case ex_form of
                 DDict d \<Rightarrow> dict_in ''_formname'' d
               | DStr s \<Rightarrow> str_contains ''_formname'' s
               | DNone \<Rightarrow> False)
              \<and> postbacks (fst ex_visited) \<and> history (fst ex_visited) \<noteq> []
              \<and> fst (snd (last (history (fst ex_visited)))) \<noteq> app (fst ex_visited) @ ''submit''"
    by code_simp
  have app: "app (fst ex_visited) @ ''submit'' = ''http://host/app/submit''"
    and m: "auto_method ''POST'' ''auto'' = ''POST''"
    by code_simp+
  from post_history [OF run ok] cond have
    "\<exists>q1 q2 s1 t1 s2 t2.
        sent (snd (snd ?P)) = sent (snd ex_visited) @ [q1, q2]
        \<and> req_url q1 = app (fst ex_visited) @ ''submit'' \<and> req_data q1 = None
        \<and> req_url q2 = app (fst ex_visited) @ ''submit''
        \<and> history (fst (snd ?P)) = history (fst ex_visited) @
             [(''GET'', app (fst ex_visited) @ ''submit'', s1, t1),
              (auto_method ''POST'' ''auto'', app (fst ex_visited) @ ''submit'', s2, t2)]"
    by simp
  with ok show ?thesis
    unfolding app m by blast
qed

section \<open>Cookies\<close>


lemma py_find_present: "c \<in> set s \<Longrightarrow> py_find c s = int (length (takeWhile (\<lambda>x. x \<noteq> c) s))"
  by (induction s) (auto simp: Let_def)


lemma slice_to_length_takeWhile:
  "slice_to s (int (length (takeWhile P s))) = takeWhile P s"
  by (simp add: slice_to_def takeWhile_eq_take [symmetric])

lemma slice_from_length_takeWhile:
  "slice_from s (int (length (takeWhile P s)) + 1) = drop 1 (dropWhile P s)"
  by (simp add: slice_from_def dropWhile_eq_drop nat_add_distrib)

lemma parse_cookie_item_documented:
  assumes "CHR '';'' \<in> set item"
    and "CHR ''='' \<in> set (takeWhile (\<lambda>c. c \<noteq> CHR '';'') item)"
  shows "parse_cookie_item item = documented_cookie_item item"
  using assms
  by (simp add: parse_cookie_item_def documented_cookie_item_def Let_def py_find_present
        slice_to_length_takeWhile slice_from_length_takeWhile)

lemma py_split_absent: "c \<notin> set s \<Longrightarrow> py_split c s = [s]"
  by (induction s) auto



text \<open>
  C2: the code follows the documented rule on every item that has a \<open>;\<close> after its
  \<open>=\<close> (\<open>parse_cookie_item_documented\<close>), and leaves it on an item without \<open>;\<close>,
  where \<open>find\<close> answers \<open>-1\<close>. For the header \<open>a=b\<close> the rule gives the value \<open>b\<close>
  and the code the empty value.
\<close>

theorem set_cookie_last_item:
  "parse_set_cookie ''a=b'' = [(''a'', [])] \<and> documented_set_cookie ''a=b'' = [(''a'', ''b'')]"
  by code_simp





section \<open>\<open>get\<close> and basic auth\<close>

lemma get_ignores_auth:
  "get srv cdc cw url' ck hs au = post srv cdc cw url' DNone ck hs None ''GET'' (Some ''utf-8'')"
  by (simp add: get.simps)

text \<open>
  C7: \<open>get\<close> takes \<open>auth\<close> and does not hand it to \<open>post\<close>. With credentials given,
  the request of \<open>get\<close> goes out without them, and the request of \<open>post\<close> with
  \<open>method="GET"\<close> carries them.
\<close>

theorem get_drops_auth:
  "req_auth (last (sent (snd (snd
      (get ex_server ex_codec (ex_client, ex_world) ''page'' None None (Some ex_auth)))))) = None
   \<and> req_auth (last (sent (snd (snd
      (post ex_server ex_codec (ex_client, ex_world) ''page'' DNone None None (Some ex_auth)
         ''GET'' (Some ''utf-8'')))))) = Some ex_auth"
  by code_simp

section \<open>Session rotation\<close>

lemma check_sessions_append:
  "check_sessions m (pre @ kv # rest) st =
     check_sessions m rest (session_step m (check_sessions m pre st) kv)"
  by (simp add: check_sessions_def)

lemma check_sessions_other:
  "\<forall>kv \<in> set rest. m (fst kv) \<noteq> Some name \<Longrightarrow>
   dict_get (fst (check_sessions m rest st)) name = dict_get (fst st) name"
proof (induction rest arbitrary: st)
  case Nil
  then show ?case by (simp add: check_sessions_def)
next
  case (Cons kv rest)
  have "dict_get (fst (session_step m st kv)) name = dict_get (fst st) name"
    using Cons.prems
    by (cases st; cases kv) (auto simp: session_step_def dict_get_dict_set split: option.splits)
  moreover have "check_sessions m (kv # rest) st = check_sessions m rest (session_step m st kv)"
    by (simp add: check_sessions_def)
  ultimately show ?case using Cons by simp
qed

lemma check_sessions_at_cookie:
  assumes "m cookie = Some name"
    and "check_sessions m pre (ss, out) = (ss1, out1)"
  shows "session_check (SRCompiled m) (pre @ (cookie, value) # rest) (ss, out)
           = Inr (check_sessions m rest
                    (dict_set name value ss1,
                     if dict_in name ss1 \<and> dict_get ss1 name \<noteq> Some value
                     then out1 @ [session_message name] else out1))
         \<and> dict_get (dict_set name value ss1) name = Some value
         \<and> ((\<forall>kv \<in> set rest. m (fst kv) \<noteq> Some name) \<longrightarrow>
              dict_get (fst (check_sessions m (pre @ (cookie, value) # rest) (ss, out))) name
                = Some value)"
proof -
  have step: "session_step m (ss1, out1) (cookie, value) =
      (dict_set name value ss1,
       if dict_in name ss1 \<and> dict_get ss1 name \<noteq> Some value
       then out1 @ [session_message name] else out1)"
    using assms(1) by (simp add: session_step_def)
  have unfold: "check_sessions m (pre @ (cookie, value) # rest) (ss, out) =
      check_sessions m rest (session_step m (ss1, out1) (cookie, value))"
    using assms(2) by (simp add: check_sessions_append)
  show ?thesis
    using check_sessions_other [of rest m name "session_step m (ss1, out1) (cookie, value)"]
    by (simp add: session_check_def unfold step dict_get_dict_set)
qed

lemma parse_headers_in_cookies_eq:
  "cookies (parse_headers_in_cookies c) =
     (case dict_get (headers c) ''set-cookie'' of None \<Rightarrow> [] | Some h \<Rightarrow> parse_set_cookie h)"
  "sessions (parse_headers_in_cookies c) = sessions c"
  "session_regex (parse_headers_in_cookies c) = session_regex c"
  by (simp_all add: parse_headers_in_cookies_def)

lemma scrape_forms_sessions [simp]:
  "cookies (scrape_forms cs dt c) = cookies c"
  "sessions (scrape_forms cs dt c) = sessions c"
  "session_regex (scrape_forms cs dt c) = session_regex c"
  by (simp_all add: scrape_forms_def split: body_text.splits)

lemma receive_session_regex:
  "receive cdc m u cs is_err resp t (c, w) = (r, c', w') \<Longrightarrow> session_regex c' = session_regex c"
  by (auto simp: receive_def Let_def parse_headers_in_cookies_eq
           split: sum.splits option.splits if_splits prod.splits)

lemma post_request_session_regex:
  assumes "post_request srv cdc u (c, w) data ck hs au m cs = (r, c', w')"
  shows "session_regex c' = session_regex c"
  using assms
proof (cases rule: post_request_elim)
  case (answered mm d' bdy resp t is_err res)
  with receive_session_regex [OF answered(3)] show ?thesis by simp
qed simp_all

lemma before_request_session_regex:
  assumes "before_request srv cdc (c, w) url' data ck hs au = (r, c1, w1, h1)"
  shows "session_regex c1 = session_regex c"
proof (cases "needs_postback c (app c @ url') data")
  case False
  with assms show ?thesis by (auto simp: before_request_eq)
next
  case True
  obtain r1 c2 w2 where g: "post_request srv cdc (app c @ url')
      (c\<lparr>url := Some (app c @ url')\<rparr>, w) DNone ck hs None ''GET'' (Some ''utf-8'') = (r1, c2, w2)"
    by (metis prod_cases3)
  with assms True have "c1 = c2" by (simp add: before_request_eq)
  with post_request_session_regex [OF g] show ?thesis by simp
qed

lemma post_session_regex:
  assumes "post srv cdc (c, w) url' data ck hs au m cs = (r, c', w')"
  shows "session_regex c' = session_regex c"
proof -
  obtain r1 c1 w1 h1 where b: "before_request srv cdc (c, w) url' data ck hs au = (r1, c1, w1, h1)"
    by (metis prod_cases4)
  show ?thesis
  proof (cases r1)
    case (Inl e)
    with assms b before_request_session_regex [OF b] show ?thesis
      by (simp add: post_eq)
  next
    case (Inr x)
    with assms b have "post_request srv cdc (app c @ url') (c1, w1) data ck h1 au m cs = (r, c', w')"
      by (simp add: post_eq)
    from post_request_session_regex [OF this] before_request_session_regex [OF b]
    show ?thesis by simp
  qed
qed

lemma receive_sessions:
  assumes "receive cdc m u cs False resp t (c, w) = (r, c', w')"
    and "session_regex c = SRCompiled mt"
    and "decode_body cdc cs resp = Inr x"
  shows "r = Inr ()
         \<and> cookies c' =
             (case dict_get (normalize_headers (resp_headers resp)) ''set-cookie'' of
                None \<Rightarrow> [] | Some h \<Rightarrow> parse_set_cookie h)
         \<and> (sessions c', stdout w') = check_sessions mt (cookies c') (sessions c, stdout w)"
  using assms
  by (auto simp: receive_def Let_def parse_headers_in_cookies_eq session_check_def
           split: prod.splits)

text \<open>
  C6: a call with a compiled session pattern whose own request is answered with a
  response, and whose body decodes, returns without raising; its cookie map is
  re-derived from the \<open>Set-Cookie\<close> header of that response, and the loop over it
  starts from the sessions and the printed lines as they were when the request was
  prepared. When the loop reaches a cookie whose name matches with group \<open>name\<close>,
  \<open>sessions[name]\<close> is set to the cookie's value, and one line is printed exactly
  if \<open>sessions[name]\<close> was recorded with another value. Unless a later cookie of
  the same response captures the same name, the value is there after the call.
\<close>

theorem session_rotation_in_call:
  assumes pre: "before_request srv cdc (c, w) url' data ck hs au = (Inr (), c1, w1, h1)"
    and run: "post srv cdc (c, w) url' data ck hs au m cs = (r, c', w')"
    and sr: "session_regex c = SRCompiled mt"
    and out: "sent w' = sent w1 @ [q]"
    and reply: "srv (sent w') = Completed resp t"
    and dec: "decode_body cdc cs resp = Inr x"
  shows "result r = Inr ()
         \<and> cookies c' =
             (case dict_get (normalize_headers (resp_headers resp)) ''set-cookie'' of
                None \<Rightarrow> [] | Some h \<Rightarrow> parse_set_cookie h)
         \<and> (\<forall>before cookie value after name ss1 out1.
              cookies c' = before @ (cookie, value) # after \<and> mt cookie = Some name
              \<and> check_sessions mt before (sessions c1, stdout w1) = (ss1, out1) \<longrightarrow>
              (sessions c', stdout w')
                = check_sessions mt after
                    (dict_set name value ss1,
                     if dict_in name ss1 \<and> dict_get ss1 name \<noteq> Some value
                     then out1 @ [session_message name] else out1)
              \<and> ((\<forall>kv \<in> set after. mt (fst kv) \<noteq> Some name) \<longrightarrow>
                   dict_get (sessions c') name = Some value))"
proof -
  from run pre
  have main: "post_request srv cdc (app c @ url') (c1, w1) data ck h1 au m cs = (r, c', w')"
    by (simp add: post_eq)
  from before_request_session_regex [OF pre] sr have sr1: "session_regex c1 = SRCompiled mt"
    by simp
  from main have R: "result r = Inr ()
         \<and> cookies c' =
             (case dict_get (normalize_headers (resp_headers resp)) ''set-cookie'' of
                None \<Rightarrow> [] | Some h \<Rightarrow> parse_set_cookie h)
         \<and> (sessions c', stdout w') = check_sessions mt (cookies c') (sessions c1, stdout w1)"
  proof (cases rule: post_request_elim)
    case (raised mm d' e)
    with out show ?thesis by simp
  next
    case (failed mm d' bdy)
    with reply show ?thesis by simp
  next
    case (answered mm d' bdy resp' t' is_err res)
    from receive_sent [OF answered(3)] answered(2) reply
    have e: "\<not> is_err" "resp' = resp" "t' = t"
      by (auto split: if_splits)
    with answered(3) have rc: "receive cdc mm (app c @ url') cs False resp t
         (c1\<lparr>method_attr := Some mm\<rparr>,
          w1\<lparr>sent := sent w1 @ [make_request c1 (app c @ url') bdy ck h1 au]\<rparr>) = (res, c', w')"
      by simp
    from receive_sessions [OF rc _ dec, of mt] sr1 answered(4) show ?thesis
      by simp
  qed
  have S: "(sessions c', stdout w')
                = check_sessions mt after
                    (dict_set name value ss1,
                     if dict_in name ss1 \<and> dict_get ss1 name \<noteq> Some value
                     then out1 @ [session_message name] else out1)
              \<and> ((\<forall>kv \<in> set after. mt (fst kv) \<noteq> Some name) \<longrightarrow>
                   dict_get (sessions c') name = Some value)"
    if a: "cookies c' = before @ (cookie, value) # after \<and> mt cookie = Some name
              \<and> check_sessions mt before (sessions c1, stdout w1) = (ss1, out1)"
    for before cookie "value" after name ss1 out1
  proof -
    from a have 1: "mt cookie = Some name"
      and 2: "check_sessions mt before (sessions c1, stdout w1) = (ss1, out1)"
      and 3: "cookies c' = before @ (cookie, value) # after"
      by blast+
    from R 3 have 4: "check_sessions mt (before @ (cookie, value) # after) (sessions c1, stdout w1)
        = (sessions c', stdout w')"
      by simp
    from check_sessions_at_cookie [OF 1 2, of "value" after] 4 show ?thesis
      by (simp add: session_check_def)
  qed
  from R S show ?thesis by blast
qed

theorem session_rotation_in_call_witness:
  "dict_get (sessions (fst ex_visited)) ''app'' = Some ''abc''
   \<and> stdout (snd ex_visited) = []
   \<and> result (fst ex_rotation) = Inr ()
   \<and> cookies (fst (snd ex_rotation)) = [(''session_id_app'', ''xyz'')]
   \<and> sessions (fst (snd ex_rotation)) = [(''app'', ''xyz'')]
   \<and> stdout (snd (snd ex_rotation)) = [''Changed session ID app'']"
proof -
  let ?c1 = "(fst ex_visited)\<lparr>url := Some (app (fst ex_visited) @ ''rotate'')\<rparr>"
  have pre: "before_request ex_server ex_codec (fst ex_visited, snd ex_visited) ''rotate'' DNone
               None None None
             = (Inr (), ?c1, snd ex_visited, None)"
    by (rule before_request_DNone)
  have run: "post ex_server ex_codec (fst ex_visited, snd ex_visited) ''rotate'' DNone
               None None None ''auto'' (Some ''utf-8'')
             = (fst ex_rotation, fst (snd ex_rotation), snd (snd ex_rotation))"
    by (simp add: ex_rotation_def)
  have "get ex_server ex_codec (ex_client, ex_world) ''page'' None None None
          = (fst (get ex_server ex_codec (ex_client, ex_world) ''page'' None None None),
             fst ex_visited, snd ex_visited)"
    by (simp add: ex_visited_def)
  then have "session_regex (fst ex_visited) = session_regex ex_client"
    unfolding get.simps by (rule post_session_regex)
  then have sr: "session_regex (fst ex_visited) = SRCompiled SESSION_REGEX"
    by (simp add: ex_client_def init_def)
  have out: "sent (snd (snd ex_rotation))
               = sent (snd ex_visited) @ [last (sent (snd (snd ex_rotation)))]"
    and reply: "ex_server (sent (snd (snd ex_rotation))) = Completed ex_rotated 1"
    and dec: "decode_body ex_codec (Some ''utf-8'') ex_rotated = Inr (Decoded [])"
    and ck: "(case dict_get (normalize_headers (resp_headers ex_rotated)) ''set-cookie'' of
                None \<Rightarrow> [] | Some h \<Rightarrow> parse_set_cookie h) = [(''session_id_app'', ''xyz'')]"
    and m: "SESSION_REGEX ''session_id_app'' = Some ''app''"
    and old: "sessions (fst ex_visited) = [(''app'', ''abc'')]"
    and quiet: "stdout (snd ex_visited) = []"
    by code_simp+
  note all = session_rotation_in_call [OF pre run sr out reply dec]
  from all ck have c: "cookies (fst (snd ex_rotation)) = [] @ (''session_id_app'', ''xyz'') # []"
    by simp
  have e: "check_sessions SESSION_REGEX [] (sessions ?c1, stdout (snd ex_visited))
             = ([(''app'', ''abc'')], [])"
    by (simp add: check_sessions_def old quiet)
  from all c m e
  have "(sessions (fst (snd ex_rotation)), stdout (snd (snd ex_rotation)))
          = check_sessions SESSION_REGEX []
              (dict_set ''app'' ''xyz'' [(''app'', ''abc'')],
               if dict_in ''app'' [(''app'', ''abc'')]
                  \<and> dict_get [(''app'', ''abc'')] ''app'' \<noteq> Some ''xyz''
               then [] @ [session_message ''app''] else [])"
    by blast
  then have "sessions (fst (snd ex_rotation)) = [(''app'', ''xyz'')]
             \<and> stdout (snd (snd ex_rotation)) = [''Changed session ID app'']"
    by (simp add: check_sessions_def dict_in_def dict_get_def session_message_def)
  with all c old quiet show ?thesis
    by (simp add: dict_get_def)
qed


section \<open>Error responses\<close>








section \<open>Charset \<open>auto\<close>\<close>

lemma receive_auto:
  "receive cdc m u (Some ''auto'') is_err resp t (c, w) =
     (Inl AttributeError,
      c\<lparr>response := Some resp, time := Some t, status := Some (code resp),
        text_attr := Some (Raw (body resp))\<rparr>, w)"
  by (simp add: receive_def decode_body_def)

text \<open>
  C8: with \<open>charset="auto"\<close> the code asks the response headers for \<open>getparam\<close>,
  which the message class of \<open>urllib.request\<close> does not have, so the call raises
  \<open>AttributeError\<close> before anything is decoded, whatever the content type declares.
  The page the server gives declares no charset; fetched with \<open>charset="auto"\<close>, the
  call ends in \<open>AttributeError\<close>, not in a decode failure, with the body still raw.
\<close>

theorem auto_charset_attribute_error:
  "ex_server (sent (snd (snd ex_auto))) = Completed ex_page 1
   \<and> resp_headers ex_page
       = [(''Set-Cookie'', ''session_id_app=abc; Path=/''), (''Content-Type'', ''text/html'')]
   \<and> result (fst ex_auto) = Inl AttributeError
   \<and> text_attr (fst (snd ex_auto)) = Some (Raw (body ex_page))"
  by code_simp

section \<open>Form scraping\<close>

lemma parse_headers_in_cookies_fields [simp]:
  "forms (parse_headers_in_cookies c) = forms c"
  "text_attr (parse_headers_in_cookies c) = text_attr c"
  "response (parse_headers_in_cookies c) = response c"
  "default_headers (parse_headers_in_cookies c) = default_headers c"
  by (simp_all add: parse_headers_in_cookies_def)

lemma scrape_forms_fields [simp]:
  "text_attr (scrape_forms cs dt c) = text_attr c"
  "response (scrape_forms cs dt c) = response c"
  "default_headers (scrape_forms cs dt c) = default_headers c"
  by (simp_all add: scrape_forms_def split: body_text.splits)

lemma receive_forms:
  assumes "receive cdc m u cs is_err resp t (c, w) = (Inr (), c', w')"
  shows "response c' = Some resp
         \<and> (truthy cs \<or> text_attr c' = Some (Raw (body resp)))
         \<and> (if truthy cs
             then \<exists>n dt. cs = Some n \<and> n \<noteq> ''auto''
                    \<and> cdc n (body resp) = Inr dt
                    \<and> text_attr c' = Some (Decoded dt) \<and> forms c' = find_forms dt
             else forms c' = forms c)"
  using assms
  by (auto simp: receive_def decode_body_def scrape_forms_def truthy_def Let_def
           split: sum.splits option.splits prod.splits if_splits)

text \<open>
  C5, as stated, fails: with a falsy \<open>charset\<close> the body is not decoded and \<open>forms\<close>
  is not touched, so it keeps what an earlier response left there instead of being
  empty. The client that has fetched \<open>page\<close> fetches it again with \<open>charset=None\<close>:
  the text stays raw and \<open>forms\<close> still holds the form of the first response.
\<close>

theorem forms_kept_without_charset:
  "result (fst ex_raw) = Inr ()
   \<and> text_attr (fst (snd ex_raw)) = Some (Raw (body ex_page))
   \<and> forms (fst (snd ex_raw)) = [(''register'', Some ''K1'')]"
  by code_simp

text \<open>
  C5, amended: after a completed call, if \<open>charset\<close> is truthy (it is not
  \<open>auto\<close> then, for such a call does not complete), the body was decoded with it
  and \<open>forms\<close> is exactly what the pattern finds in the decoded text, empty if it
  finds nothing; otherwise \<open>forms\<close> is what it was when the request of the call was
  prepared, that is after the priming \<open>get\<close> if there was one.
\<close>

theorem forms_after_call:
  assumes pre: "before_request srv cdc (c, w) url' data ck hs au = (Inr (), c1, w1, h1)"
    and run: "post srv cdc (c, w) url' data ck hs au m cs = (r, c', w')"
    and ok: "result r = Inr ()"
  shows "\<exists>resp t. srv (sent w') = Completed resp t \<and> response c' = Some resp
           \<and> (truthy cs \<or> text_attr c' = Some (Raw (body resp)))
           \<and> (if truthy cs
               then \<exists>n dt. cs = Some n \<and> n \<noteq> ''auto''
                      \<and> cdc n (body resp) = Inr dt
                      \<and> text_attr c' = Some (Decoded dt) \<and> forms c' = find_forms dt
               else forms c' = forms c1)"
proof -
  from run pre
  have "post_request srv cdc (app c @ url') (c1, w1) data ck h1 au m cs = (r, c', w')"
    by (simp add: post_eq)
  then show ?thesis
  proof (cases rule: post_request_elim)
    case (raised mm d' e)
    with ok show ?thesis by simp
  next
    case (failed mm d' bdy)
    with ok show ?thesis by simp
  next
    case (answered mm d' bdy resp t is_err res)
    with ok have res: "res = Inr ()" by simp
    with answered(3) have ne: "\<not> is_err"
      by (cases is_err) (auto dest: receive_error_raises)
    from answered(3) res have rc: "receive cdc mm (app c @ url') cs is_err resp t
         (c1\<lparr>method_attr := Some mm\<rparr>,
          w1\<lparr>sent := sent w1 @ [make_request c1 (app c @ url') bdy ck h1 au]\<rparr>) = (Inr (), c', w')"
      by simp
    from receive_sent [OF rc] answered(2) ne have S: "srv (sent w') = Completed resp t"
      by simp
    have F: "forms (c1\<lparr>method_attr := Some mm\<rparr>) = forms c1"
      by simp
    note R = receive_forms [OF rc, unfolded F]
    from S R show ?thesis
      by blast
  qed
qed

theorem forms_after_call_witness:
  "result (fst ex_again) = Inr ()
   \<and> text_attr (fst (snd ex_again)) = Some (Decoded (body ex_page))
   \<and> forms (fst (snd ex_again)) = find_forms (body ex_page)
   \<and> find_forms (body ex_page) = [(''register'', Some ''K1'')]"
proof -
  have pre: "before_request ex_server ex_codec (fst ex_visited, snd ex_visited) ''page'' DNone
               None None None
             = (Inr (), (fst ex_visited)\<lparr>url := Some (app (fst ex_visited) @ ''page'')\<rparr>,
                snd ex_visited, None)"
    by (rule before_request_DNone)
  have run: "post ex_server ex_codec (fst ex_visited, snd ex_visited) ''page'' DNone
               None None None ''auto'' (Some ''utf-8'')
             = (fst ex_again, fst (snd ex_again), snd (snd ex_again))"
    by (simp add: ex_again_def)
  have ok: "result (fst ex_again) = Inr ()"
    and reply: "ex_server (sent (snd (snd ex_again))) = Completed ex_page 1"
    and dec: "ex_codec ''utf-8'' (body ex_page) = Inr (body ex_page)"
    and ff: "find_forms (body ex_page) = [(''register'', Some ''K1'')]"
    by code_simp+
  from forms_after_call [OF pre run ok] reply dec ff ok show ?thesis
    by (auto simp: truthy_def)
qed


section \<open>The encoded form\<close>

lemma dict_in_iff: "dict_in k d = (dict_get d k \<noteq> None)"
  by (simp add: dict_in_def dict_get_def)

lemma inject_formname:
  assumes "\<not> dict_in ''_formname'' d" and "fs = [(name, tok)]"
  shows "\<exists>d'. inject_form fs d = Inr d' \<and> dict_get d' ''_formname'' = Some (Str name)"
proof -
  have look: "dict_get [(name, tok)] name = Some tok"
    by (simp add: dict_get_def)
  show ?thesis
    using assms
    by (simp add: inject_form_def Let_def dict_get_dict_set dict_in_dict_set look)
qed

lemma inject_formkey:
  assumes "dict_get d ''_formname'' = Some (Str name)"
    and "\<not> dict_in ''_formkey'' d"
    and "dict_get fs name = Some tok"
  shows "inject_form fs d =
           Inr (dict_set ''_formkey'' (case tok of Some k \<Rightarrow> Str k | None \<Rightarrow> PyNone) d)"
  using assms
  by (auto simp: inject_form_def Let_def dict_in_iff)

lemma urlencode_items_Str:
  "dict_get d k = Some (Str v) \<Longrightarrow> quote_plus k @ ''='' @ quote_plus v \<in> set (urlencode_items d)"
  by (force simp: dict_get_def urlencode_items_def dest: map_of_SomeD)

lemma urlencode_items_PyNone:
  "dict_get d k = Some PyNone \<Longrightarrow> quote_plus k @ ''='' @ quote_plus ''None'' \<in> set (urlencode_items d)"
  by (force simp: dict_get_def urlencode_items_def dest: map_of_SomeD)

lemma post_request_body:
  assumes run: "post_request srv cdc u (c, w) (DDict d) ck hs au m cs = (r, c', w')"
    and inj: "inject_form (forms c) d = Inr d'"
  shows "arg_data r = DDict d'
         \<and> (\<exists>q. sent w' = sent w @ [q] \<and> req_data q = Some (urlencode d'))"
proof -
  from inj have e: "encode_data (forms c) m (DDict d) =
      (auto_method ''POST'' m, DDict d', Inr (Some (urlencode d')))"
    by (simp add: encode_data_def)
  from run show ?thesis
  proof (cases rule: post_request_elim)
    case (raised mm d'' e')
    with e show ?thesis by simp
  next
    case (failed mm d'' bdy)
    with e show ?thesis by auto
  next
    case (answered mm d'' bdy resp t is_err res)
    with e receive_sent [OF answered(3)] show ?thesis by auto
  qed
qed

lemma hex_val_hex_digit: "hex_val (hex_digit n) = Some (n mod 16)"
proof -
  let ?ds = "''0123456789ABCDEF''"
  have m: "map hex_val ?ds = map Some [0..<16]"
    by code_simp
  have l: "length ?ds = 16"
    by simp
  have i: "n mod 16 < 16"
    by simp
  have "hex_val (?ds ! (n mod 16)) = map hex_val ?ds ! (n mod 16)"
    using i l by (simp only: nth_map)
  also have "\<dots> = Some (n mod 16)"
    unfolding m using i by (simp only: nth_map length_upt nth_upt) simp
  finally show ?thesis
    by (simp only: hex_digit_def)
qed

lemma hex_digit_plain: "hex_digit n \<notin> {CHR ''&'', CHR ''='', CHR ''+'', CHR ''%''}"
proof -
  let ?ds = "''0123456789ABCDEF''"
  have "hex_digit n \<in> set ?ds"
    unfolding hex_digit_def by (rule nth_mem) simp
  then show ?thesis by auto
qed

lemma always_safe_plain:
  "always_safe c \<Longrightarrow> c \<notin> {CHR ''&'', CHR ''='', CHR ''+'', CHR ''%''}"
  by (auto simp: always_safe_def Let_def)

lemma quote_char_plain: "x \<in> set (quote_char c) \<Longrightarrow> x \<noteq> CHR ''&'' \<and> x \<noteq> CHR ''=''"
  using hex_digit_plain [of "of_char c div 16"] hex_digit_plain [of "of_char c"]
    always_safe_plain [of c]
  by (auto simp: quote_char_def split: if_splits)

lemma quote_plus_plain: "CHR ''&'' \<notin> set (quote_plus s) \<and> CHR ''='' \<notin> set (quote_plus s)"
  by (auto simp: quote_plus_def dest: quote_char_plain)

lemma of_char_split: "16 * ((of_char c :: nat) div 16 mod 16) + of_char c mod 16 = of_char c"
proof -
  have "(of_char c :: nat) < 16 * 16" by simp
  then have "(of_char c :: nat) div 16 < 16" by (rule less_mult_imp_div_less)
  then have "(of_char c :: nat) div 16 mod 16 = of_char c div 16" by (rule mod_less)
  then show ?thesis by (simp only: mult_div_mod_eq)
qed

lemma unquote_quote_char: "unquote_plus (quote_char c @ s) = c # unquote_plus s"
proof (cases "always_safe c")
  case True
  with always_safe_plain [OF True] show ?thesis
    by (simp add: quote_char_def)
next
  case False
  show ?thesis
  proof (cases "c = CHR '' ''")
    case True
    with False show ?thesis by (simp add: quote_char_def)
  next
    case sp: False
    have "char_of (16 * ((of_char c :: nat) div 16 mod 16) + of_char c mod 16) = c"
      by (simp only: of_char_split char_of_comp_of_char) simp
    with False sp show ?thesis
      by (simp add: quote_char_def hex_val_hex_digit)
  qed
qed

lemma unquote_quote_plus: "unquote_plus (quote_plus s) = s"
  by (induction s) (simp_all add: quote_plus_def unquote_quote_char)

lemma py_split_append: "c \<notin> set a \<Longrightarrow> py_split c (a @ c # b) = a # py_split c b"
  by (induction a) auto

lemma py_split_join_amp:
  "items \<noteq> [] \<Longrightarrow> \<forall>i \<in> set items. CHR ''&'' \<notin> set i \<Longrightarrow>
   py_split CHR ''&'' (join_amp items) = items"
proof (induction items rule: join_amp.induct)
  case 1
  then show ?case by simp
next
  case (2 x)
  then show ?case by (simp add: py_split_absent)
next
  case (3 x y ys)
  then show ?case by (simp add: py_split_append)
qed

lemma urlencode_items_shape:
  "i \<in> set (urlencode_items d) \<Longrightarrow> \<exists>k v. i = quote_plus k @ ''='' @ quote_plus v"
proof -
  assume "i \<in> set (urlencode_items d)"
  then obtain k f where "(k, f) \<in> set d" and "i \<in> set (urlencode_field k f)"
    by (auto simp: urlencode_items_def)
  then show ?thesis by (cases f) auto
qed

lemma parse_qsl_urlencode:
  assumes "quote_plus k @ ''='' @ quote_plus v \<in> set (urlencode_items d)"
  shows "(k, v) \<in> set (parse_qsl (urlencode d))"
proof -
  let ?i = "quote_plus k @ ''='' @ quote_plus v"
  let ?dec = "\<lambda>nv. (unquote_plus (takeWhile (\<lambda>c. c \<noteq> CHR ''='') nv),
                     unquote_plus (drop 1 (dropWhile (\<lambda>c. c \<noteq> CHR ''='') nv)))"
  have plain: "\<forall>i \<in> set (urlencode_items d). CHR ''&'' \<notin> set i"
    using quote_plus_plain by (auto dest!: urlencode_items_shape)
  from assms have "urlencode_items d \<noteq> []" by auto
  from this plain have split: "py_split CHR ''&'' (urlencode d) = urlencode_items d"
    unfolding urlencode_def by (rule py_split_join_amp)
  have "takeWhile (\<lambda>c. c \<noteq> CHR ''='') ?i = quote_plus k"
    using quote_plus_plain [of k] by (subst takeWhile_append2) auto
  moreover have "dropWhile (\<lambda>c. c \<noteq> CHR ''='') ?i = ''='' @ quote_plus v"
    using quote_plus_plain [of k] by (subst dropWhile_append2) auto
  ultimately have "?dec ?i = (k, v)"
    by (simp add: unquote_quote_plus)
  moreover from assms have "?i \<in> set (filter (\<lambda>nv. nv \<noteq> []) (urlencode_items d))"
    by simp
  ultimately have "(k, v) \<in> ?dec ` set (filter (\<lambda>nv. nv \<noteq> []) (urlencode_items d))"
    by (metis (no_types, lifting) image_eqI)
  then show ?thesis
    by (simp add: parse_qsl_def split)
qed

text \<open>
  C4, as stated, fails in its second part: \<open>forms\<close> is read when the body is
  encoded, and by then the priming \<open>get\<close> may have replaced it. The client holds the
  form \<open>register\<close> with key \<open>K1\<close> and posts a mapping with that form name and no
  \<open>_formkey\<close> to \<open>plain\<close>; the priming \<open>get\<close> finds no form there, and the body
  goes out without a \<open>_formkey\<close>.
\<close>

theorem formkey_of_stale_form:
  "dict_get ex_fields ''_formname'' = Some (Str ''register'')
   \<and> \<not> dict_in ''_formkey'' ex_fields
   \<and> dict_get (forms (fst ex_visited)) ''register'' = Some (Some ''K1'')
   \<and> result (fst ex_stale) = Inr ()
   \<and> req_data (last (sent (snd (snd ex_stale)))) = Some ''_formname=register&email=a%40b.com''
   \<and> parse_qsl ''_formname=register&email=a%40b.com''
       = [(''_formname'', ''register''), (''email'', ''a@b.com'')]"
  by code_simp

text \<open>
  C4, amended: \<open>post\<close> with a mapping, once the priming stage is through. If the
  mapping has no \<open>_formname\<close> and \<open>forms\<close> has exactly one entry, the request goes
  out with the URL-encoded mapping as its body, and the body read back has the field
  \<open>_formname\<close> with that form's name. If the mapping has a \<open>_formname\<close> that is a
  key of \<open>forms\<close> as it stands after the priming \<open>get\<close> (if there was one) and no
  \<open>_formkey\<close>, the body read back has the field \<open>_formkey\<close> with the token
  remembered there; a form scraped without a key has the token \<open>None\<close>, which is
  sent as the text \<open>None\<close>.
\<close>

theorem form_fields_sent:
  assumes pre: "before_request srv cdc (c, w) url' (DDict d) ck hs au = (Inr (), c1, w1, h1)"
    and run: "post srv cdc (c, w) url' (DDict d) ck hs au m cs = (r, c', w')"
  shows "(\<forall>name tok. \<not> dict_in ''_formname'' d \<and> forms c = [(name, tok)] \<longrightarrow>
            (\<exists>d' q. arg_data r = DDict d' \<and> sent w' = sent w @ [q]
                \<and> req_data q = Some (urlencode d')
                \<and> (''_formname'', name) \<in> set (parse_qsl (urlencode d'))))
         \<and> (\<forall>name tok. dict_get d ''_formname'' = Some (Str name)
                \<and> \<not> dict_in ''_formkey'' d \<and> dict_get (forms c1) name = Some tok \<longrightarrow>
            (\<exists>d' q. arg_data r = DDict d' \<and> sent w' = sent w1 @ [q]
                \<and> req_data q = Some (urlencode d')
                \<and> (''_formkey'', case tok of Some k \<Rightarrow> k | None \<Rightarrow> ''None'')
                     \<in> set (parse_qsl (urlencode d'))))"
proof -
  from run pre
  have main: "post_request srv cdc (app c @ url') (c1, w1) (DDict d) ck h1 au m cs = (r, c', w')"
    by (simp add: post_eq)
  have A: "\<exists>d' q. arg_data r = DDict d' \<and> sent w' = sent w @ [q]
            \<and> req_data q = Some (urlencode d')
            \<and> (''_formname'', name) \<in> set (parse_qsl (urlencode d'))"
    if a: "\<not> dict_in ''_formname'' d \<and> forms c = [(name, tok)]" for name tok
  proof -
    from a have "\<not> needs_postback c (app c @ url') (DDict d)"
      by (simp add: needs_postback_def has_formname_def)
    with pre have same: "forms c1 = forms c" "w1 = w"
      by (auto simp: before_request_eq)
    from a same inject_formname [of d "forms c1" name tok] obtain d' where
      d': "inject_form (forms c1) d = Inr d'" "dict_get d' ''_formname'' = Some (Str name)"
      by auto
    from urlencode_items_Str [OF d'(2)]
    have "(''_formname'', name) \<in> set (parse_qsl (urlencode d'))"
      by (rule parse_qsl_urlencode)
    with post_request_body [OF main d'(1)] same show ?thesis
      by auto
  qed
  have B: "\<exists>d' q. arg_data r = DDict d' \<and> sent w' = sent w1 @ [q]
            \<and> req_data q = Some (urlencode d')
            \<and> (''_formkey'', case tok of Some k \<Rightarrow> k | None \<Rightarrow> ''None'')
                 \<in> set (parse_qsl (urlencode d'))"
    if a: "dict_get d ''_formname'' = Some (Str name)
               \<and> \<not> dict_in ''_formkey'' d \<and> dict_get (forms c1) name = Some tok" for name tok
  proof -
    let ?d' = "dict_set ''_formkey'' (case tok of Some k \<Rightarrow> Str k | None \<Rightarrow> PyNone) d"
    from a have inj: "inject_form (forms c1) d = Inr ?d'"
      by (simp add: inject_formkey)
    have "(''_formkey'', case tok of Some k \<Rightarrow> k | None \<Rightarrow> ''None'')
            \<in> set (parse_qsl (urlencode ?d'))"
    proof (cases tok)
      case None
      then have "dict_get ?d' ''_formkey'' = Some PyNone"
        by (simp add: dict_get_dict_set)
      from parse_qsl_urlencode [OF urlencode_items_PyNone [OF this]] None show ?thesis
        by simp
    next
      case (Some k)
      then have "dict_get ?d' ''_formkey'' = Some (Str k)"
        by (simp add: dict_get_dict_set)
      from parse_qsl_urlencode [OF urlencode_items_Str [OF this]] Some show ?thesis
        by simp
    qed
    with post_request_body [OF main inj] show ?thesis
      by auto
  qed
  from A B show ?thesis by blast
qed

theorem form_fields_sent_witness:
  "result (fst ex_priming) = Inr ()
   \<and> dict_get ex_fields ''_formname'' = Some (Str ''register'')
   \<and> \<not> dict_in ''_formkey'' ex_fields
   \<and> dict_get (forms (fst (snd ex_priming))) ''register'' = Some (Some ''K1'')
   \<and> (\<exists>d' q. arg_data (fst ex_submit) = DDict d'
         \<and> sent (snd (snd ex_submit)) = sent (snd (snd ex_priming)) @ [q]
         \<and> req_data q = Some (urlencode d')
         \<and> (''_formkey'', ''K1'') \<in> set (parse_qsl (urlencode d')))"
proof -
  have yes: "needs_postback ((fst ex_visited)\<lparr>url := Some (app (fst ex_visited) @ ''submit'')\<rparr>)
               (app (fst ex_visited) @ ''submit'') (DDict ex_fields)"
    and ok: "result (fst ex_priming) = Inr ()"
    and name: "dict_get ex_fields ''_formname'' = Some (Str ''register'')"
    and nokey: "\<not> dict_in ''_formkey'' ex_fields"
    and tok: "dict_get (forms (fst (snd ex_priming))) ''register'' = Some (Some ''K1'')"
    by code_simp+
  have "before_request ex_server ex_codec (fst ex_visited, snd ex_visited) ''submit''
               (DDict ex_fields) None None None
             = (result (fst ex_priming), fst (snd ex_priming), snd (snd ex_priming),
                arg_headers (fst ex_priming))"
    using yes by (simp add: before_request.simps Let_def ex_priming_def case_prod_beta)
  with ok have pre: "before_request ex_server ex_codec (fst ex_visited, snd ex_visited) ''submit''
               (DDict ex_fields) None None None
             = (Inr (), fst (snd ex_priming), snd (snd ex_priming), arg_headers (fst ex_priming))"
    by simp
  have run: "post ex_server ex_codec (fst ex_visited, snd ex_visited) ''submit''
               (DDict ex_fields) None None None ''auto'' (Some ''utf-8'')
             = (fst ex_submit, fst (snd ex_submit), snd (snd ex_submit))"
    by (simp add: ex_submit_def)
  from form_fields_sent [OF pre run]
  have "dict_get ex_fields ''_formname'' = Some (Str ''register'')
          \<and> \<not> dict_in ''_formkey'' ex_fields
          \<and> dict_get (forms (fst (snd ex_priming))) ''register'' = Some (Some ''K1'') \<longrightarrow>
        (\<exists>d' q. arg_data (fst ex_submit) = DDict d'
            \<and> sent (snd (snd ex_submit)) = sent (snd (snd ex_priming)) @ [q]
            \<and> req_data q = Some (urlencode d')
            \<and> (''_formkey'', case Some ''K1'' of Some k \<Rightarrow> k | None \<Rightarrow> ''None'')
                 \<in> set (parse_qsl (urlencode d')))"
    by blast
  with ok name nokey tok show ?thesis
    by simp
qed


section \<open>The caller's mappings\<close>

lemma merge_default_headers_Cons:
  "merge_default_headers ((key, value) # dh) h =
     merge_default_headers dh (if \<not> dict_in key h then dict_set key value h else h)"
  by (simp add: merge_default_headers_def)

lemma dict_get_Nil [simp]: "dict_get [] k = None"
  by (simp add: dict_get_def)

lemma dict_get_Cons: "dict_get ((a, b) # d) k = (if k = a then Some b else dict_get d k)"
  by (simp add: dict_get_def)

lemma headers_after_url [simp]: "headers_after (c\<lparr>url := x\<rparr>) hs = headers_after c hs"
  by (simp add: headers_after_def used_headers_def split: option.splits)

lemma merge_default_headers_get:
  "dict_get (merge_default_headers dh h) k =
     (case dict_get h k of Some v \<Rightarrow> Some v | None \<Rightarrow> dict_get dh k)"
proof (induction dh arbitrary: h)
  case Nil
  then show ?case
    by (simp add: merge_default_headers_def split: option.splits)
next
  case (Cons x dh)
  obtain key "value" where x: "x = (key, value)" by (cases x)
  show ?case
    unfolding x merge_default_headers_Cons Cons.IH
    by (auto simp: dict_get_dict_set dict_in_iff dict_get_Cons split: option.splits)
qed

lemma merge_default_headers_keys:
  "dict_in k (merge_default_headers dh h) = (dict_in k h \<or> dict_in k dh)"
  by (auto simp: dict_in_iff merge_default_headers_get split: option.splits)

lemma merge_default_headers_idle:
  "(\<forall>k. dict_in k dh \<longrightarrow> dict_in k h) \<Longrightarrow> merge_default_headers dh h = h"
proof (induction dh)
  case Nil
  then show ?case by (simp add: merge_default_headers_def)
next
  case (Cons x dh)
  obtain key "value" where x: "x = (key, value)" by (cases x)
  from Cons.prems x have "dict_in key h"
    by (simp add: dict_in_def)
  moreover from Cons.prems x have "\<forall>k. dict_in k dh \<longrightarrow> dict_in k h"
    by (auto simp: dict_in_def)
  ultimately show ?case
    unfolding x merge_default_headers_Cons using Cons.IH by simp
qed

lemma merge_default_headers_twice:
  "merge_default_headers dh (merge_default_headers dh h) = merge_default_headers dh h"
  by (rule merge_default_headers_idle) (simp add: merge_default_headers_keys)

lemma merge_default_headers_changes:
  "dict_in k dh \<Longrightarrow> \<not> dict_in k h \<Longrightarrow> merge_default_headers dh h \<noteq> h"
  using merge_default_headers_keys [of k dh h] by auto

lemma merge_default_headers_nonempty:
  "h \<noteq> [] \<Longrightarrow> merge_default_headers dh h \<noteq> []"
  using merge_default_headers_get [of dh h "fst (hd h)"]
  by (cases h) (auto simp: dict_get_def split: option.splits)

lemma headers_after_eq:
  "headers_after c hs =
     (case hs of
        None \<Rightarrow> None
      | Some h \<Rightarrow> if h = [] then Some []
                  else Some (merge_default_headers (default_headers c) h))"
  by (simp add: headers_after_def used_headers_def split: option.splits)

lemma headers_after_twice:
  "default_headers c1 = default_headers c \<Longrightarrow>
   headers_after c1 (headers_after c hs) = headers_after c hs"
  by (auto simp: headers_after_eq merge_default_headers_twice merge_default_headers_nonempty
           split: option.splits)

lemma receive_default_headers:
  "receive cdc m u cs is_err resp t (c, w) = (r, c', w') \<Longrightarrow>
   default_headers c' = default_headers c"
  by (auto simp: receive_def Let_def split: sum.splits option.splits if_splits prod.splits)

lemma post_request_leaves:
  assumes "post_request srv cdc u (c, w) data ck hs au m cs = (r, c', w')"
  shows "arg_headers r = headers_after c hs
         \<and> arg_data r = fst (snd (encode_data (forms c) m data))
         \<and> default_headers c' = default_headers c"
  using assms
proof (cases rule: post_request_elim)
  case (answered mm d' bdy resp t is_err res)
  with receive_default_headers [OF answered(3)] show ?thesis by simp
qed simp_all

lemma post_arg_headers:
  assumes run: "post srv cdc (c, w) url' data ck hs au m cs = (r, c', w')"
  shows "arg_headers r = headers_after c hs"
proof (cases "needs_postback c (app c @ url') data")
  case False
  with run have "post_request srv cdc (app c @ url') (c\<lparr>url := Some (app c @ url')\<rparr>, w)
                   data ck hs au m cs = (r, c', w')"
    by (simp add: post_eq before_request_eq)
  from post_request_leaves [OF this] show ?thesis
    by simp
next
  case True
  let ?u = "app c @ url'"
  obtain r1 c1 w1 where g: "post_request srv cdc ?u (c\<lparr>url := Some ?u\<rparr>, w)
                   DNone ck hs None ''GET'' (Some ''utf-8'') = (r1, c1, w1)"
    by (metis prod_cases3)
  from post_request_leaves [OF g]
  have 1: "arg_headers r1 = headers_after c hs" "default_headers c1 = default_headers c"
    by simp_all
  show ?thesis
  proof (cases "result r1")
    case (Inl e)
    with run True g 1 show ?thesis
      by (auto simp: post_eq before_request_eq)
  next
    case (Inr x)
    with run True g
    have "post_request srv cdc ?u (c1, w1) data ck (arg_headers r1) au m cs = (r, c', w')"
      by (auto simp: post_eq before_request_eq)
    from post_request_leaves [OF this] 1 show ?thesis
      by (simp add: headers_after_twice)
  qed
qed

lemma post_arg_data:
  assumes pre: "before_request srv cdc (c, w) url' data ck hs au = (Inr (), c1, w1, h1)"
    and run: "post srv cdc (c, w) url' data ck hs au m cs = (r, c', w')"
  shows "arg_data r = fst (snd (encode_data (forms c1) m data))"
proof -
  from run pre
  have "post_request srv cdc (app c @ url') (c1, w1) data ck h1 au m cs = (r, c', w')"
    by (simp add: post_eq)
  from post_request_leaves [OF this] show ?thesis by simp
qed

lemma dict_in_differs: "dict_in k d' \<Longrightarrow> \<not> dict_in k d \<Longrightarrow> d' \<noteq> d"
  by auto

text \<open>
  C9, as stated, fails: \<open>headers = headers or {}\<close> replaces an empty dict of the
  caller by a new one, and the defaults are merged into that. A call with
  \<open>headers={}\<close> sends the default headers and leaves the caller's dict empty.
\<close>

theorem empty_headers_untouched:
  "default_headers ex_client = DEFAULT_HEADERS
   \<and> dict_in ''user-agent'' DEFAULT_HEADERS
   \<and> result (fst ex_bare) = Inr ()
   \<and> arg_headers (fst ex_bare) = Some []
   \<and> req_addheaders (last (sent (snd (snd ex_bare))))
       = [(''user-agent'', ''Mozilla/4.0''), (''accept-language'', ''en'')]"
  by code_simp

text \<open>
  C9, amended: after \<open>post\<close>, the caller's \<open>headers\<close> dict, if it was not empty,
  holds its own entries and those defaults whose keys it lacked, so it differs from
  what was passed whenever a default was missing; an empty \<open>headers\<close> dict is left
  as it was. Once the priming stage is through, the caller's \<open>data\<close> dict is the
  mapping with the form name and key put in, and differs from what was passed
  whenever one of them was.
\<close>

theorem caller_mappings_after_call:
  assumes run: "post srv cdc (c, w) url' data ck hs au m cs = (r, c', w')"
  shows "arg_headers r =
           (case hs of
              None \<Rightarrow> None
            | Some h \<Rightarrow> if h = [] then Some []
                        else Some (merge_default_headers (default_headers c) h))
         \<and> (\<forall>h k. hs = Some h \<and> h \<noteq> [] \<longrightarrow>
              (\<exists>h'. arg_headers r = Some h'
                 \<and> dict_get h' k =
                     (case dict_get h k of
                        Some v \<Rightarrow> Some v
                      | None \<Rightarrow> dict_get (default_headers c) k)
                 \<and> (dict_in k (default_headers c) \<and> \<not> dict_in k h \<longrightarrow> h' \<noteq> h)))
         \<and> (\<forall>d c1 w1 h1 d' name tok.
              data = DDict d
              \<and> before_request srv cdc (c, w) url' data ck hs au = (Inr (), c1, w1, h1)
              \<and> inject_form (forms c1) d = Inr d' \<longrightarrow>
              arg_data r = DDict d'
              \<and> (\<not> dict_in ''_formname'' d \<and> forms c1 = [(name, tok)] \<longrightarrow>
                   dict_get d' ''_formname'' = Some (Str name) \<and> d' \<noteq> d)
              \<and> (dict_get d ''_formname'' = Some (Str name) \<and> \<not> dict_in ''_formkey'' d
                   \<and> dict_get (forms c1) name = Some tok \<longrightarrow>
                   dict_get d' ''_formkey''
                     = Some (case tok of Some k \<Rightarrow> Str k | None \<Rightarrow> PyNone)
                   \<and> d' \<noteq> d))"
proof -
  have H1: "arg_headers r =
           (case hs of
              None \<Rightarrow> None
            | Some h \<Rightarrow> if h = [] then Some []
                        else Some (merge_default_headers (default_headers c) h))"
    using post_arg_headers [OF run] by (simp add: headers_after_eq)
  have H2: "\<exists>h'. arg_headers r = Some h'
                 \<and> dict_get h' k =
                     (case dict_get h k of
                        Some v \<Rightarrow> Some v
                      | None \<Rightarrow> dict_get (default_headers c) k)
                 \<and> (dict_in k (default_headers c) \<and> \<not> dict_in k h \<longrightarrow> h' \<noteq> h)"
    if a: "hs = Some h \<and> h \<noteq> []" for h k
  proof -
    from a H1 have "arg_headers r = Some (merge_default_headers (default_headers c) h)"
      by simp
    then show ?thesis
      by (auto simp: merge_default_headers_get dest: merge_default_headers_changes)
  qed
  have H3: "arg_data r = DDict d'
              \<and> (\<not> dict_in ''_formname'' d \<and> forms c1 = [(name, tok)] \<longrightarrow>
                   dict_get d' ''_formname'' = Some (Str name) \<and> d' \<noteq> d)
              \<and> (dict_get d ''_formname'' = Some (Str name) \<and> \<not> dict_in ''_formkey'' d
                   \<and> dict_get (forms c1) name = Some tok \<longrightarrow>
                   dict_get d' ''_formkey''
                     = Some (case tok of Some k \<Rightarrow> Str k | None \<Rightarrow> PyNone)
                   \<and> d' \<noteq> d)"
    if a: "data = DDict d
              \<and> before_request srv cdc (c, w) url' data ck hs au = (Inr (), c1, w1, h1)
              \<and> inject_form (forms c1) d = Inr d'" for d c1 w1 h1 d' name tok
  proof -
    from a have pre: "before_request srv cdc (c, w) url' data ck hs au = (Inr (), c1, w1, h1)"
      and inj: "inject_form (forms c1) d = Inr d'" and dd: "data = DDict d"
      by blast+
    from post_arg_data [OF pre run] inj dd have A: "arg_data r = DDict d'"
      by (simp add: encode_data_def)
    have B: "dict_get d' ''_formname'' = Some (Str name) \<and> d' \<noteq> d"
      if b: "\<not> dict_in ''_formname'' d \<and> forms c1 = [(name, tok)]"
    proof -
      from b inject_formname [of d "forms c1" name tok] inj
      have g: "dict_get d' ''_formname'' = Some (Str name)" by auto
      then have "dict_in ''_formname'' d'" by (simp add: dict_in_iff)
      with b g show ?thesis by (auto dest: dict_in_differs)
    qed
    have C: "dict_get d' ''_formkey'' = Some (case tok of Some k \<Rightarrow> Str k | None \<Rightarrow> PyNone)
             \<and> d' \<noteq> d"
      if b: "dict_get d ''_formname'' = Some (Str name) \<and> \<not> dict_in ''_formkey'' d
                   \<and> dict_get (forms c1) name = Some tok"
    proof -
      from b inject_formkey [of d name "forms c1" tok] inj
      have "d' = dict_set ''_formkey'' (case tok of Some k \<Rightarrow> Str k | None \<Rightarrow> PyNone) d"
        by simp
      then have g: "dict_get d' ''_formkey''
                      = Some (case tok of Some k \<Rightarrow> Str k | None \<Rightarrow> PyNone)"
        by (simp add: dict_get_dict_set)
      then have "dict_in ''_formkey'' d'" by (simp add: dict_in_iff)
      with b g show ?thesis by (auto dest: dict_in_differs)
    qed
    from A B C show ?thesis by blast
  qed
  from H1 H2 H3 show ?thesis by blast
qed

theorem caller_mappings_after_call_witness:
  "arg_headers (fst ex_tagged)
     = Some [(''x-test'', Single ''1''), (''user-agent'', Single ''Mozilla/4.0''),
             (''accept-language'', Single ''en'')]
   \<and> arg_data (fst ex_tagged)
     = DDict [(''_formname'', Str ''register''), (''email'', Str ''a@b.com''),
              (''_formkey'', Str ''K1'')]"
proof -
  let ?c1 = "(fst ex_visited)\<lparr>url := Some (app (fst ex_visited) @ ''page'')\<rparr>"
  let ?d' = "[(''_formname'', Str ''register''), (''email'', Str ''a@b.com''),
              (''_formkey'', Str ''K1'')]"
  have np: "\<not> needs_postback (fst ex_visited) (app (fst ex_visited) @ ''page'') (DDict ex_fields)"
    by code_simp
  have pre: "before_request ex_server ex_codec (fst ex_visited, snd ex_visited) ''page''
               (DDict ex_fields) None (Some [(''x-test'', Single ''1'')]) None
             = (Inr (), ?c1, snd ex_visited, Some [(''x-test'', Single ''1'')])"
    by (subst before_request_eq) (simp add: np)
  have run: "post ex_server ex_codec (fst ex_visited, snd ex_visited) ''page''
               (DDict ex_fields) None (Some [(''x-test'', Single ''1'')]) None
               ''auto'' (Some ''utf-8'')
             = (fst ex_tagged, fst (snd ex_tagged), snd (snd ex_tagged))"
    by (simp add: ex_tagged_def)
  have inj: "inject_form (forms (fst ex_visited)) ex_fields = Inr ?d'"
    and mrg: "merge_default_headers (default_headers (fst ex_visited)) [(''x-test'', Single ''1'')]
              = [(''x-test'', Single ''1''), (''user-agent'', Single ''Mozilla/4.0''),
                 (''accept-language'', Single ''en'')]"
    by code_simp+
  from inj have inj': "inject_form (forms ?c1) ex_fields = Inr ?d'"
    by simp
  note all = caller_mappings_after_call [OF run]
  from all have "arg_headers (fst ex_tagged)
      = Some (merge_default_headers (default_headers (fst ex_visited)) [(''x-test'', Single ''1'')])"
    by simp
  moreover from all pre inj' have "arg_data (fst ex_tagged) = DDict ?d'"
    by blast
  ultimately show ?thesis
    using mrg by simp
qed


end
